theory Spec2Isabelle
  imports Complex_Main
begin

section \<open>The movement handler of the auras module (scripts/auras.mjs)\<close>

text \<open>
  The module registers one handler, \<open>updateToken\<close>, on the host's token update hook.
  The handler reads the scene (tokens, actors, their effects), asks two geometry helpers
  of \<open>helpers.mjs\<close> for nearby tokens and token distances, and sends four kinds of
  queries to the active GM. The helpers and the GM's query handlers are not part of
  \<open>auras.mjs\<close>: the helpers are fields of the world the handler runs in, and the GM
  is a function that says what the world is once a query has been acknowledged.
\<close>

subsection \<open>JavaScript values in number position\<close>

text \<open>
  \<open>effect.system.distance\<close>, \<open>updates.x\<close> and the result of the distance helper are
  used through \<open>!v\<close> and \<open>a < b\<close> only. Finite numbers are rationals here: \<open><\<close> on
  finite doubles is \<open><\<close> on their values.
\<close>

datatype jsnum = Undefined | Null | NaN | Num rat | Infinity | NegInfinity

text \<open>\<open>!v\<close> is true for \<open>undefined\<close>, \<open>null\<close>, \<open>NaN\<close> and \<open>0\<close>.\<close>

fun falsy :: "jsnum \<Rightarrow> bool" where
  "falsy Undefined = True"
| "falsy Null = True"
| "falsy NaN = True"
| "falsy (Num r) = (r = 0)"
| "falsy Infinity = False"
| "falsy NegInfinity = False"

fun ToNumber :: "jsnum \<Rightarrow> jsnum" where
  "ToNumber Undefined = NaN"
| "ToNumber Null = Num 0"
| "ToNumber v = v"

text \<open>\<open>a < b\<close> on numbers: false as soon as one side is \<open>NaN\<close>.\<close>

fun num_lt :: "jsnum \<Rightarrow> jsnum \<Rightarrow> bool" where
  "num_lt (Num a) (Num b) = (a < b)"
| "num_lt (Num a) Infinity = True"
| "num_lt NegInfinity (Num b) = True"
| "num_lt NegInfinity Infinity = True"
| "num_lt _ _ = False"

definition js_lt :: "jsnum \<Rightarrow> jsnum \<Rightarrow> bool" where
  "js_lt a b = num_lt (ToNumber a) (ToNumber b)"

subsection \<open>Documents\<close>

text \<open>
  An actor object is identified by its uuid: the host keeps one object for each
  document, so \<open>a !== b\<close> on actors is inequality of the two values.
\<close>

datatype actor = Actor (actor_uuid: string)

text \<open>
  An active effect: \<open>etype\<close> is \<open>effect.type\<close>, the three fields of \<open>effect.system\<close>
  are \<open>distance\<close>, \<open>disposition\<close> and \<open>collisionTypes\<close>, and \<open>originalType\<close> is
  \<open>effect.getFlag("auras", "originalType")\<close>.
\<close>

record effect =
  uuid :: string
  etype :: string
  origin :: "string option"
  distance :: jsnum
  disposition :: int
  collisionTypes :: "string list"
  originalType :: "string option"

text \<open>
  A token document. \<open>token_actor\<close> is \<open>None\<close> for a token with no actor,
  \<open>token_object\<close> says whether \<open>token.object\<close> (the placeable on the canvas) exists.
\<close>

record token =
  token_id :: string
  token_actor :: "actor option"
  token_disposition :: int
  token_object :: bool

text \<open>\<open>updates.x\<close>, \<open>updates.y\<close>, \<open>updates.elevation\<close>; \<open>Undefined\<close> for a key the update lacks.\<close>

record updates =
  upd_x :: jsnum
  upd_y :: jsnum
  upd_elevation :: jsnum

subsection \<open>The world, queries and events\<close>

text \<open>
  What the handler reads and what changes while it awaits: the effects of every actor
  (\<open>actor.effects\<close>, \<open>actor.appliedEffects\<close>), the tokens of the scene
  (\<open>token.parent.tokens\<close>), and the answers of the three helpers of \<open>helpers.mjs\<close>
  on the canvas as it is.
\<close>

record world =
  effects :: "actor \<Rightarrow> effect list"
  appliedEffects :: "actor \<Rightarrow> effect list"
  tokens :: "token list"
  getNearbyTokens :: "token \<Rightarrow> jsnum \<Rightarrow> int \<Rightarrow> string list \<Rightarrow> token list"
  getTokenToTokenDistance :: "token \<Rightarrow> token \<Rightarrow> string list \<Rightarrow> jsnum"
  isFinalMovementComplete :: "token \<Rightarrow> bool"

text \<open>
  The four queries, with their payloads. An entry of \<open>effectUuids\<close> or \<open>actorUuids\<close>
  is \<open>None\<close> where the source's \<open>?.uuid\<close> gives \<open>undefined\<close>.
\<close>

datatype query =
  DeleteEffects "string option list"
| ApplyEffect effect "string option list"
| DeleteAuraEffects string "string list"
| ApplyAuraEffects string "string list"

text \<open>
  What an invocation does that can be seen from outside, in order: a warning, a call of
  a geometry helper, the wait for the movement animation, a query sent to the GM.
\<close>

datatype event =
  Warn string
| Nearby token jsnum int "string list"
| AwaitMovement
| Distance token token "string list"
| Query query

datatype error = TypeError | QueryRejected

text \<open>
  The active GM, as its \<open>query\<close> method: the world once the query is acknowledged,
  or \<open>None\<close> when the request is rejected (the await throws).
\<close>

type_synonym gm = "query \<Rightarrow> world \<Rightarrow> world option"

type_synonym run = "event list \<times> (error + world)"

definition andThen :: "run \<Rightarrow> (world \<Rightarrow> run) \<Rightarrow> run" where
  "andThen r f =
     (case r of
        (evs, Inl err) \<Rightarrow> (evs, Inl err)
      | (evs, Inr w) \<Rightarrow> (case f w of (evs', r') \<Rightarrow> (evs @ evs', r')))"

text \<open>\<open>await activeGM.query(name, payload)\<close>\<close>

definition dispatch :: "gm \<Rightarrow> query \<Rightarrow> world \<Rightarrow> run" where
  "dispatch activeGM q w =
     ([Query q], case activeGM q w of None \<Rightarrow> Inl QueryRejected | Some w' \<Rightarrow> Inr w')"

subsection \<open>Sets of actors\<close>

text \<open>
  A JavaScript \<open>Set\<close> keeps its elements in insertion order: a list without
  duplicates, built by adding the elements one after the other.
\<close>

definition new_Set :: "'a list \<Rightarrow> 'a list" where
  "new_Set xs = foldl (\<lambda>s x. if x \<in> set s then s else s @ [x]) [] xs"

definition difference :: "'a list \<Rightarrow> 'a list \<Rightarrow> 'a list" where
  "difference s t = filter (\<lambda>a. a \<notin> set t) s"

subsection \<open>Pass A: the auras the moving token carries\<close>

text \<open>
  \<open>new Set(getNearbyTokens(token, radius, { disposition, collisionTypes }).map(t => t.actor))\<close>
\<close>

definition nearbyActors :: "world \<Rightarrow> token \<Rightarrow> effect \<Rightarrow> actor option list" where
  "nearbyActors w tok effect =
     new_Set (map token_actor
       (getNearbyTokens w tok (distance effect) (disposition effect) (collisionTypes effect)))"

text \<open>The first loop: \<open>preMoveRanges[effect.uuid]\<close> for each source effect with a radius.\<close>

fun preMoveLoop :: "world \<Rightarrow> token \<Rightarrow> effect list \<Rightarrow> (string \<rightharpoonup> actor option list)
      \<Rightarrow> event list \<times> (string \<rightharpoonup> actor option list)" where
  "preMoveLoop w tok [] preMoveRanges = ([], preMoveRanges)"
| "preMoveLoop w tok (effect # rest) preMoveRanges =
     (if falsy (distance effect) then preMoveLoop w tok rest preMoveRanges
      else (case preMoveLoop w tok rest
                  (preMoveRanges(uuid effect \<mapsto> nearbyActors w tok effect)) of
              (evs, ranges) \<Rightarrow>
                (Nearby tok (distance effect) (disposition effect) (collisionTypes effect) # evs,
                 ranges)))"

text \<open>
  \<open>mergeObject(effect.toObject(), {origin: effect.uuid, type: effect.getFlag(...) ?? "base"})\<close>
\<close>

definition effectData :: "effect \<Rightarrow> effect" where
  "effectData effect =
     effect\<lparr>origin := Some (uuid effect),
            etype := (case originalType effect of None \<Rightarrow> ''base'' | Some t \<Rightarrow> t)\<rparr>"

text \<open>\<open>a.effects.find(e => e.origin === effect.uuid)\<close>\<close>

definition findDerived :: "world \<Rightarrow> effect \<Rightarrow> actor \<Rightarrow> effect option" where
  "findDerived w effect a = find (\<lambda>e. origin e = Some (uuid effect)) (effects w a)"

text \<open>
  \<open>Array.from(preMoveRange.difference(postMoveRange)).map(a => a.effects.find(...)?.uuid)\<close>:
  \<open>a.effects\<close> throws for an actor that is \<open>null\<close>.
\<close>

definition toDelete :: "world \<Rightarrow> effect \<Rightarrow> actor option list \<Rightarrow> actor option list
      \<Rightarrow> error + string option list" where
  "toDelete w effect preMoveRange postMoveRange =
     (let gone = difference preMoveRange postMoveRange in
      if None \<in> set gone then Inl TypeError
      else Inr (map (\<lambda>a. case a of None \<Rightarrow> None
                            | Some a' \<Rightarrow> map_option uuid (findDerived w effect a')) gone))"

text \<open>
  \<open>Array.from(postMoveRange.filter(a => (a !== token.actor) && !a?.effects.find(...))).map(a => a?.uuid)\<close>
\<close>

definition toAddTo :: "world \<Rightarrow> token \<Rightarrow> effect \<Rightarrow> actor option list \<Rightarrow> string option list" where
  "toAddTo w tok effect postMoveRange =
     map (map_option actor_uuid)
       (filter (\<lambda>a. a \<noteq> token_actor tok \<and>
                    (case a of None \<Rightarrow> True | Some a' \<Rightarrow> findDerived w effect a' = None))
          postMoveRange)"

text \<open>
  The body of the second loop for one source effect with a radius. The post-move range
  and the removals are computed before the removal is awaited; the test for the final
  segment and the additions are computed after it.
\<close>

definition postMoveStep :: "gm \<Rightarrow> token \<Rightarrow> (string \<rightharpoonup> actor option list) \<Rightarrow> effect \<Rightarrow> world \<Rightarrow> run" where
  "postMoveStep activeGM tok preMoveRanges effect w =
     (let postMoveRange = nearbyActors w tok effect;
          nearby = Nearby tok (distance effect) (disposition effect) (collisionTypes effect) in
      case preMoveRanges (uuid effect) of
        None \<Rightarrow> ([nearby], Inl TypeError)
      | Some preMoveRange \<Rightarrow>
          (case toDelete w effect preMoveRange postMoveRange of
             Inl err \<Rightarrow> ([nearby], Inl err)
           | Inr del \<Rightarrow>
               andThen (andThen ([nearby], Inr w) (dispatch activeGM (DeleteEffects del)))
                 (\<lambda>w1. if isFinalMovementComplete w1 tok
                       then dispatch activeGM
                              (ApplyEffect (effectData effect) (toAddTo w1 tok effect postMoveRange)) w1
                       else ([], Inr w1))))"

fun postMoveLoop :: "gm \<Rightarrow> token \<Rightarrow> (string \<rightharpoonup> actor option list) \<Rightarrow> effect list \<Rightarrow> world \<Rightarrow> run" where
  "postMoveLoop activeGM tok preMoveRanges [] w = ([], Inr w)"
| "postMoveLoop activeGM tok preMoveRanges (effect # rest) w =
     (if falsy (distance effect) then postMoveLoop activeGM tok preMoveRanges rest w
      else (case postMoveStep activeGM tok preMoveRanges effect w of
              (evs, Inl err) \<Rightarrow> (evs, Inl err)
            | (evs, Inr w') \<Rightarrow>
                (case postMoveLoop activeGM tok preMoveRanges rest w' of
                   (evs', r) \<Rightarrow> (evs @ evs', r))))"

subsection \<open>Pass B: the auras of the other tokens of the scene\<close>

text \<open>\<open>const disposition = token.disposition * sourceToken.disposition\<close>\<close>

definition effectiveDisposition :: "token \<Rightarrow> token \<Rightarrow> int" where
  "effectiveDisposition tok sourceToken = token_disposition tok * token_disposition sourceToken"

text \<open>The filter on \<open>sourceToken.actor.appliedEffects\<close>.\<close>

definition auraEffects :: "world \<Rightarrow> token \<Rightarrow> token \<Rightarrow> actor \<Rightarrow> effect list" where
  "auraEffects w tok sourceToken a =
     filter (\<lambda>e. etype e = ''auras.aura'' \<and>
                 (disposition e = 0 \<or> disposition e = effectiveDisposition tok sourceToken))
       (appliedEffects w a)"

text \<open>The \<open>for\<close> loop over the surviving auras of one source token.\<close>

fun auraLoop :: "world \<Rightarrow> token \<Rightarrow> token \<Rightarrow> effect list \<Rightarrow> effect list \<times> effect list
      \<Rightarrow> event list \<times> (effect list \<times> effect list)" where
  "auraLoop w tok sourceToken [] acc = ([], acc)"
| "auraLoop w tok sourceToken (currEffect # rest) (toRemove, toAdd) =
     (case auraLoop w tok sourceToken rest
             (if js_lt (distance currEffect)
                   (getTokenToTokenDistance w tok sourceToken (collisionTypes currEffect))
              then (toRemove @ [currEffect], toAdd)
              else (toRemove, toAdd @ [currEffect])) of
        (evs, acc) \<Rightarrow> (Distance tok sourceToken (collisionTypes currEffect) # evs, acc))"

text \<open>
  The callback of \<open>reduce\<close>. \<open>sourceToken.actor.appliedEffects\<close> throws for a source
  token with no actor (the moving token has one, so the two actors differ).
\<close>

definition reducer :: "world \<Rightarrow> token \<Rightarrow> effect list \<times> effect list \<Rightarrow> token
      \<Rightarrow> event list \<times> (error + effect list \<times> effect list)" where
  "reducer w tok acc sourceToken =
     (if token_actor sourceToken = token_actor tok then ([], Inr acc)
      else (case token_actor sourceToken of
              None \<Rightarrow> ([], Inl TypeError)
            | Some a \<Rightarrow>
                (if auraEffects w tok sourceToken a = [] then ([], Inr acc)
                 else (case auraLoop w tok sourceToken (auraEffects w tok sourceToken a) acc of
                         (evs, acc') \<Rightarrow> (evs, Inr acc')))))"

fun sceneAuras :: "world \<Rightarrow> token \<Rightarrow> token list \<Rightarrow> effect list \<times> effect list
      \<Rightarrow> event list \<times> (error + effect list \<times> effect list)" where
  "sceneAuras w tok [] acc = ([], Inr acc)"
| "sceneAuras w tok (sourceToken # rest) acc =
     (case reducer w tok acc sourceToken of
        (evs, Inl err) \<Rightarrow> (evs, Inl err)
      | (evs, Inr acc') \<Rightarrow>
          (case sceneAuras w tok rest acc' of (evs', r) \<Rightarrow> (evs @ evs', r)))"

text \<open>The scan of the scene and the two batched requests, keyed by \<open>token.actor.uuid\<close>.\<close>

definition passB :: "gm \<Rightarrow> token \<Rightarrow> world \<Rightarrow> run" where
  "passB activeGM tok w =
     (case sceneAuras w tok (tokens w) ([], []) of
        (evs, Inl err) \<Rightarrow> (evs, Inl err)
      | (evs, Inr (sceneAurasToRemove, sceneAurasToAdd)) \<Rightarrow>
          andThen
            (andThen (evs, Inr w)
               (\<lambda>w0. if sceneAurasToRemove \<noteq> []
                     then (case token_actor tok of
                             None \<Rightarrow> ([], Inl TypeError)
                           | Some a \<Rightarrow> dispatch activeGM
                               (DeleteAuraEffects (actor_uuid a) (map uuid sceneAurasToRemove)) w0)
                     else ([], Inr w0)))
            (\<lambda>w1. if sceneAurasToAdd \<noteq> [] \<and> isFinalMovementComplete w1 tok
                  then (case token_actor tok of
                          None \<Rightarrow> ([], Inl TypeError)
                        | Some a \<Rightarrow> dispatch activeGM
                            (ApplyAuraEffects (actor_uuid a) (map uuid sceneAurasToAdd)) w1)
                  else ([], Inr w1)))"

subsection \<open>The handler\<close>

text \<open>
  Lines 31 to 93: what \<open>updateToken\<close> does once its four guards have passed.
  \<open>token.object.movementAnimationPromise\<close> throws for a token with no placeable.
\<close>

definition reconcile :: "gm \<Rightarrow> (world \<Rightarrow> world) \<Rightarrow> token \<Rightarrow> actor \<Rightarrow> world \<Rightarrow> run" where
  "reconcile activeGM settled tok a w =
     (let allEffects = appliedEffects w a;
          sourceEffects = filter (\<lambda>e. etype e = ''auras.aura'') allEffects in
      case preMoveLoop w tok sourceEffects Map.empty of
        (evs, preMoveRanges) \<Rightarrow>
          if \<not> token_object tok then (evs, Inl TypeError)
          else andThen
                 (andThen (evs @ [AwaitMovement], Inr (settled w))
                    (postMoveLoop activeGM tok preMoveRanges sourceEffects))
                 (passB activeGM tok))"

text \<open>
  \<open>game.user.id\<close>, \<open>game.users.activeGM\<close>, and the world as it is when
  \<open>token.object.movementAnimationPromise\<close> resolves.
\<close>

record game =
  user_id :: string
  activeGM :: "gm option"
  movementAnimationPromise :: "world \<Rightarrow> world"

text \<open>
  The result of one invocation: the module's \<open>seenWarning\<close> after it, the events in
  order, and the world at the return or the error thrown.
\<close>

record result =
  seenWarning :: bool
  trace :: "event list"
  outcome :: "error + world"

text \<open>
  \<open>updateToken(token, updates, options, userId)\<close>, with the module variable
  \<open>seenWarning\<close> passed in and returned. \<open>options\<close> is never read.
\<close>

definition updateToken :: "game \<Rightarrow> bool \<Rightarrow> world \<Rightarrow> token \<Rightarrow> updates \<Rightarrow> string \<Rightarrow> result" where
  "updateToken g seen w tok upd userId =
     (if user_id g \<noteq> userId then \<lparr>seenWarning = seen, trace = [], outcome = Inr w\<rparr>
      else (case activeGM g of
              None \<Rightarrow>
                (if \<not> seen
                 then \<lparr>seenWarning = True, trace = [Warn ''AURAS.NoActiveGM''], outcome = Inr w\<rparr>
                 else \<lparr>seenWarning = seen, trace = [], outcome = Inr w\<rparr>)
            | Some gm \<Rightarrow>
                (case token_actor tok of
                   None \<Rightarrow> \<lparr>seenWarning = seen, trace = [], outcome = Inr w\<rparr>
                 | Some a \<Rightarrow>
                     (if falsy (upd_x upd) \<and> falsy (upd_y upd) \<and> falsy (upd_elevation upd)
                      then \<lparr>seenWarning = seen, trace = [], outcome = Inr w\<rparr>
                      else (case reconcile gm (movementAnimationPromise g) tok a w of
                              (evs, r) \<Rightarrow> \<lparr>seenWarning = seen, trace = evs, outcome = r\<rparr>)))))"

subsection \<open>A session: the handler called again and again\<close>

text \<open>
  The hook calls \<open>updateToken\<close> once for every accepted token update, on every client.
  \<open>seenWarning\<close> is a variable of the module: it starts \<open>false\<close> and each
  invocation finds it as the one before left it. The world an invocation starts in is its
  own: anything may have happened since the one before.
\<close>

record invocation =
  inv_game :: game
  inv_world :: world
  inv_token :: token
  inv_updates :: updates
  inv_userId :: string

fun session :: "bool \<Rightarrow> invocation list \<Rightarrow> result list" where
  "session seen [] = []"
| "session seen (i # rest) =
     (let r = updateToken (inv_game i) seen (inv_world i) (inv_token i) (inv_updates i) (inv_userId i)
      in r # session (seenWarning r) rest)"

subsection \<open>Reading a trace\<close>

fun isWarn :: "event \<Rightarrow> bool" where
  "isWarn (Warn _) = True"
| "isWarn _ = False"

definition warnings :: "event list \<Rightarrow> nat" where
  "warnings evs = length (filter isWarn evs)"

text \<open>The queries sent to the GM, in order.\<close>

fun requests :: "event list \<Rightarrow> query list" where
  "requests [] = []"
| "requests (Query q # evs) = q # requests evs"
| "requests (_ # evs) = requests evs"


text \<open>
  An invocation is quiet when it does nothing but, at most, warn: no call of a geometry
  helper, no wait for the animation, no query.
\<close>

definition quiet :: "event list \<Rightarrow> bool" where
  "quiet evs = (filter (\<lambda>ev. \<not> isWarn ev) evs = [])"

subsection \<open>A scene with two tokens\<close>

text \<open>
  Token A (actor A) carries an aura of radius 2, token B (actor B) an aura of radius 5;
  both auras affect anyone. The tokens are 3 apart: B is out of A's aura, A is inside B's,
  and actor A already holds the effect derived from B's aura. The GM acknowledges every
  query; this world is what a GM that executes them leaves unchanged, since nothing in it
  is missing or stale.
\<close>

definition actorA :: actor where
  "actorA = Actor ''Actor.A''"

definition actorB :: actor where
  "actorB = Actor ''Actor.B''"

definition auraA :: effect where
  "auraA = \<lparr>uuid = ''Actor.A.ActiveEffect.1'', etype = ''auras.aura'', origin = None,
            distance = Num 2, disposition = 0, collisionTypes = [''move''],
            originalType = None\<rparr>"

definition auraB :: effect where
  "auraB = \<lparr>uuid = ''Actor.B.ActiveEffect.1'', etype = ''auras.aura'', origin = None,
            distance = Num 5, disposition = 0, collisionTypes = [''move''],
            originalType = None\<rparr>"

definition derivedB :: effect where
  "derivedB = \<lparr>uuid = ''Actor.A.ActiveEffect.2'', etype = ''base'',
               origin = Some ''Actor.B.ActiveEffect.1'',
               distance = Num 5, disposition = 0, collisionTypes = [''move''],
               originalType = None\<rparr>"

definition tokA :: token where
  "tokA = \<lparr>token_id = ''Token.A'', token_actor = Some actorA, token_disposition = 1,
           token_object = True\<rparr>"

definition tokB :: token where
  "tokB = \<lparr>token_id = ''Token.B'', token_actor = Some actorB, token_disposition = 1,
           token_object = True\<rparr>"

definition sceneEffects :: "actor \<Rightarrow> effect list" where
  "sceneEffects a =
     (if a = actorA then [auraA, derivedB] else if a = actorB then [auraB] else [])"

definition world0 :: world where
  "world0 = \<lparr>effects = sceneEffects, appliedEffects = sceneEffects,
             tokens = [tokA, tokB],
             getNearbyTokens = (\<lambda>t r d c. []),
             getTokenToTokenDistance = (\<lambda>t s c. Num 3),
             isFinalMovementComplete = (\<lambda>t. True)\<rparr>"

definition gmAck :: gm where
  "gmAck q w = Some w"

definition game0 :: game where
  "game0 = \<lparr>user_id = ''user1'', activeGM = Some gmAck,
            movementAnimationPromise = (\<lambda>w. w)\<rparr>"

definition gameNoGM :: game where
  "gameNoGM = \<lparr>user_id = ''user1'', activeGM = None,
               movementAnimationPromise = (\<lambda>w. w)\<rparr>"

definition move0 :: updates where
  "move0 = \<lparr>upd_x = Num 100, upd_y = Undefined, upd_elevation = Undefined\<rparr>"

subsection \<open>Variations of the scene\<close>

text \<open>The effect actor B holds once A's aura has been applied to it.\<close>

definition derivedA :: effect where
  "derivedA = \<lparr>uuid = ''Actor.B.ActiveEffect.2'', etype = ''base'',
               origin = Some ''Actor.A.ActiveEffect.1'',
               distance = Num 2, disposition = 0, collisionTypes = [''move''],
               originalType = None\<rparr>"

text \<open>
  Both tokens are reported within radius 2 of token A (the helper does not leave the
  moving token out); actor B holds nothing derived from A's aura.
\<close>

definition worldSelf :: world where
  "worldSelf = world0\<lparr>getNearbyTokens := (\<lambda>t r d c. [tokA, tokB])\<rparr>"

text \<open>The same, and actor B already holds the effect derived from A's aura.\<close>

definition heldEffects :: "actor \<Rightarrow> effect list" where
  "heldEffects a = (if a = actorB then [auraB, derivedA] else sceneEffects a)"

definition worldHeld :: world where
  "worldHeld = worldSelf\<lparr>effects := heldEffects\<rparr>"

text \<open>
  A move in several segments, seen after a segment that is not the last: B was within
  A's aura when the update was accepted and is out of it once the animation has
  settled, the tokens are then 7 apart, and B holds the effect derived from A's aura.
\<close>

definition worldTransit :: world where
  "worldTransit = \<lparr>effects = heldEffects, appliedEffects = heldEffects,
             tokens = [tokA, tokB],
             getNearbyTokens = (\<lambda>t r d c. [tokB]),
             getTokenToTokenDistance = (\<lambda>t s c. Num 7),
             isFinalMovementComplete = (\<lambda>t. False)\<rparr>"

definition gameTransit :: game where
  "gameTransit = \<lparr>user_id = ''user1'', activeGM = Some gmAck,
            movementAnimationPromise = (\<lambda>w. w\<lparr>getNearbyTokens := (\<lambda>t r d c. [])\<rparr>)\<rparr>"

text \<open>Token A exactly on the edge of B's aura: 5 away, radius 5.\<close>

definition worldEdge :: world where
  "worldEdge = world0\<lparr>getTokenToTokenDistance := (\<lambda>t s c. Num 5)\<rparr>"

text \<open>
  Actor B carries an aura whose radius is \<open>0\<close>, or is not set; token A has no
  aura of its own. In \<open>worldZero\<close> the two tokens are on the same spot, in
  \<open>worldApart\<close> and \<open>worldUnset\<close> they are 3 apart.
\<close>

definition auraZero :: effect where
  "auraZero = \<lparr>uuid = ''Actor.B.ActiveEffect.3'', etype = ''auras.aura'', origin = None,
            distance = Num 0, disposition = 0, collisionTypes = [''move''],
            originalType = None\<rparr>"

definition worldZero :: world where
  "worldZero = \<lparr>effects = (\<lambda>a. if a = actorB then [auraZero] else []),
             appliedEffects = (\<lambda>a. if a = actorB then [auraZero] else []),
             tokens = [tokA, tokB],
             getNearbyTokens = (\<lambda>t r d c. []),
             getTokenToTokenDistance = (\<lambda>t s c. Num 0),
             isFinalMovementComplete = (\<lambda>t. True)\<rparr>"

definition worldApart :: world where
  "worldApart = worldZero\<lparr>getTokenToTokenDistance := (\<lambda>t s c. Num 3)\<rparr>"

definition auraUnset :: effect where
  "auraUnset = auraZero\<lparr>distance := Undefined\<rparr>"

definition worldUnset :: world where
  "worldUnset = worldApart\<lparr>appliedEffects := (\<lambda>a. if a = actorB then [auraUnset] else [])\<rparr>"

text \<open>
  A third token C (actor C, no effect at all). All three tokens are reported within
  radius 2 of token A, before and after the move; actor B holds the effect derived
  from A's aura, actor C does not.
\<close>

definition actorC :: actor where
  "actorC = Actor ''Actor.C''"

definition tokC :: token where
  "tokC = \<lparr>token_id = ''Token.C'', token_actor = Some actorC, token_disposition = 1,
           token_object = True\<rparr>"

definition worldThree :: world where
  "worldThree = \<lparr>effects = heldEffects, appliedEffects = heldEffects,
             tokens = [tokA, tokB, tokC],
             getNearbyTokens = (\<lambda>t r d c. [tokA, tokB, tokC]),
             getTokenToTokenDistance = (\<lambda>t s c. Num 3),
             isFinalMovementComplete = (\<lambda>t. True)\<rparr>"

text \<open>
  Actor B has two tokens on the scene: token B is 5 away from token A, on the edge of
  the aura, and token B2 is 6 away.
\<close>

definition tokB2 :: token where
  "tokB2 = \<lparr>token_id = ''Token.B2'', token_actor = Some actorB, token_disposition = 1,
           token_object = True\<rparr>"

definition worldTwo :: world where
  "worldTwo = \<lparr>effects = sceneEffects, appliedEffects = sceneEffects,
             tokens = [tokA, tokB, tokB2],
             getNearbyTokens = (\<lambda>t r d c. []),
             getTokenToTokenDistance = (\<lambda>t s c. if token_id s = ''Token.B2'' then Num 6 else Num 5),
             isFinalMovementComplete = (\<lambda>t. True)\<rparr>"


text \<open>
  Two invocations with no active GM, on the client of \<open>user1\<close>: one for a move that
  \<open>user1\<close> made, one for a move that \<open>user2\<close> made.
\<close>

definition ownMove :: invocation where
  "ownMove = \<lparr>inv_game = gameNoGM, inv_world = world0, inv_token = tokA, inv_updates = move0,
              inv_userId = ''user1''\<rparr>"

definition otherMove :: invocation where
  "otherMove = \<lparr>inv_game = gameNoGM, inv_world = world0, inv_token = tokB, inv_updates = move0,
                inv_userId = ''user2''\<rparr>"

subsection \<open>Vocabulary of the proofs\<close>

text \<open>
  A property of the world that the GM's answers keep: if it holds when a query is sent,
  it holds when the query is acknowledged.
\<close>

definition preserves :: "gm \<Rightarrow> (world \<Rightarrow> bool) \<Rightarrow> bool" where
  "preserves g P = (\<forall>q w w'. P w \<longrightarrow> g q w = Some w' \<longrightarrow> P w')"

text \<open>
  Where an event of Pass A comes from: the source effect \<open>e\<close>, the world \<open>w0\<close> the
  post-move range was taken in and the world \<open>w1\<close> after the removal was acknowledged.
\<close>

definition passA_event :: "(world \<Rightarrow> bool) \<Rightarrow> token \<Rightarrow> (string \<rightharpoonup> actor option list) \<Rightarrow> effect \<Rightarrow> event \<Rightarrow> bool" where
  "passA_event P tok pre e ev =
     (ev = Nearby tok (distance e) (disposition e) (collisionTypes e)
      \<or> (\<exists>w0 preR del. P w0 \<and> pre (uuid e) = Some preR
            \<and> toDelete w0 e preR (nearbyActors w0 tok e) = Inr del
            \<and> ev = Query (DeleteEffects del))
      \<or> (\<exists>w0 w1. P w0 \<and> P w1 \<and> isFinalMovementComplete w1 tok
            \<and> ev = Query (ApplyEffect (effectData e) (toAddTo w1 tok e (nearbyActors w0 tok e)))))"

text \<open>Where an event of Pass B comes from.\<close>

definition passB_event :: "(world \<Rightarrow> bool) \<Rightarrow> token \<Rightarrow> event \<Rightarrow> bool" where
  "passB_event P tok ev =
     ((\<exists>s c. ev = Distance tok s c \<and> token_actor s \<noteq> token_actor tok)
      \<or> (\<exists>w0 evs rem add a. P w0 \<and> sceneAuras w0 tok (tokens w0) ([], []) = (evs, Inr (rem, add))
            \<and> token_actor tok = Some a
            \<and> ((rem \<noteq> [] \<and> ev = Query (DeleteAuraEffects (actor_uuid a) (map uuid rem)))
               \<or> (\<exists>w1. P w1 \<and> isFinalMovementComplete w1 tok \<and> add \<noteq> []
                     \<and> ev = Query (ApplyAuraEffects (actor_uuid a) (map uuid add))))))"

text \<open>Actor \<open>b\<close> holds an effect whose origin is \<open>u\<close>.\<close>

definition holdsDerived :: "string \<Rightarrow> actor \<Rightarrow> world \<Rightarrow> bool" where
  "holdsDerived u b w = (find (\<lambda>x. origin x = Some u) (effects w b) \<noteq> None)"

text \<open>
  The proximity sets of the token are in \<open>w'\<close> what they are in \<open>w\<close>, whatever
  the radius, the disposition and the collision types asked for.
\<close>

definition sameProximity :: "token \<Rightarrow> world \<Rightarrow> world \<Rightarrow> bool" where
  "sameProximity tok w w' =
     (\<forall>r d c. set (map token_actor (getNearbyTokens w' tok r d c))
              = set (map token_actor (getNearbyTokens w tok r d c)))"


text \<open>
  The world changes at the two kinds of \<open>await\<close> only. From the world the movement
  settled in, \<open>replay\<close> gives the world after the GM has answered a list of queries
  in order, and \<open>asked\<close> pairs each query with the world it was sent in.
\<close>

fun replay :: "gm \<Rightarrow> world \<Rightarrow> query list \<Rightarrow> world option" where
  "replay g w [] = Some w"
| "replay g w (q # qs) = (case g q w of None \<Rightarrow> None | Some w' \<Rightarrow> replay g w' qs)"

fun asked :: "gm \<Rightarrow> world \<Rightarrow> query list \<Rightarrow> (query \<times> world) list" where
  "asked g w [] = []"
| "asked g w (q # qs) = (q, w) # (case g q w of None \<Rightarrow> [] | Some w' \<Rightarrow> asked g w' qs)"

text \<open>The two queries of Pass A.\<close>

fun isPassA :: "query \<Rightarrow> bool" where
  "isPassA (DeleteEffects _) = True"
| "isPassA (ApplyEffect _ _) = True"
| "isPassA _ = False"

text \<open>
  Where a query of Pass A comes from, \<open>wq\<close> being the world it is sent in: the
  removals are computed in that world, the additions from the range taken in \<open>w0\<close>.
\<close>

definition passA_asked :: "token \<Rightarrow> (string \<rightharpoonup> actor option list) \<Rightarrow> effect \<Rightarrow> query \<Rightarrow> world \<Rightarrow> bool" where
  "passA_asked tok pre e q wq =
     ((\<exists>preR del. pre (uuid e) = Some preR
          \<and> toDelete wq e preR (nearbyActors wq tok e) = Inr del \<and> q = DeleteEffects del)
      \<or> (\<exists>w0. isFinalMovementComplete wq tok
          \<and> q = ApplyEffect (effectData e) (toAddTo wq tok e (nearbyActors w0 tok e))))"

section \<open>Properties\<close>

subsection \<open>Sets and the first loop\<close>

lemma set_foldl_add:
  "set (foldl (\<lambda>s x. if x \<in> set s then s else s @ [x]) s0 xs) = set s0 \<union> set xs"
  by (induction xs arbitrary: s0) auto

lemma set_new_Set: "set (new_Set xs) = set xs"
  by (simp add: new_Set_def set_foldl_add)

lemma preMoveLoop_events:
  "ev \<in> set (fst (preMoveLoop w tok es pre)) \<Longrightarrow>
   \<exists>e\<in>set es. \<not> falsy (distance e) \<and> ev = Nearby tok (distance e) (disposition e) (collisionTypes e)"
proof (induction es arbitrary: pre)
  case Nil
  then show ?case by simp
next
  case (Cons e es)
  show ?case
  proof (cases "falsy (distance e)")
    case True
    with Cons show ?thesis by auto
  next
    case False
    with Cons.prems
    have "ev = Nearby tok (distance e) (disposition e) (collisionTypes e)
          \<or> ev \<in> set (fst (preMoveLoop w tok es (pre(uuid e \<mapsto> nearbyActors w tok e))))"
      by (auto split: prod.splits)
    with Cons.IH False show ?thesis by auto
  qed
qed

lemma preMoveLoop_other:
  "k \<notin> uuid ` {x \<in> set es. \<not> falsy (distance x)} \<Longrightarrow> snd (preMoveLoop w tok es pre) k = pre k"
proof (induction es arbitrary: pre)
  case Nil
  then show ?case by simp
next
  case (Cons e es)
  from Cons.prems have rest: "k \<notin> uuid ` {x \<in> set es. \<not> falsy (distance x)}"
    and here: "\<not> falsy (distance e) \<Longrightarrow> k \<noteq> uuid e"
    by auto
  show ?case
  proof (cases "falsy (distance e)")
    case True
    with Cons.IH[OF rest] show ?thesis by simp
  next
    case False
    have "snd (preMoveLoop w tok (e # es) pre) k
            = snd (preMoveLoop w tok es (pre(uuid e \<mapsto> nearbyActors w tok e))) k"
      using False by (simp add: case_prod_unfold)
    also have "\<dots> = (pre(uuid e \<mapsto> nearbyActors w tok e)) k"
      by (rule Cons.IH[OF rest])
    also have "\<dots> = pre k"
      using here[OF False] by simp
    finally show ?thesis .
  qed
qed

lemma preMoveLoop_lookup:
  "inj_on uuid (set es) \<Longrightarrow> e \<in> set es \<Longrightarrow> \<not> falsy (distance e) \<Longrightarrow>
   snd (preMoveLoop w tok es pre) (uuid e) = Some (nearbyActors w tok e)"
proof (induction es arbitrary: pre)
  case Nil
  then show ?case by simp
next
  case (Cons x es)
  show ?case
  proof (cases "e = x")
    case True
    from Cons.prems have "uuid x \<notin> uuid ` {y \<in> set es. \<not> falsy (distance y)} \<or> x \<in> set es"
      by (auto simp: inj_on_def)
    then show ?thesis
    proof
      assume "uuid x \<notin> uuid ` {y \<in> set es. \<not> falsy (distance y)}"
      from preMoveLoop_other[OF this, of w tok "pre(uuid x \<mapsto> nearbyActors w tok x)"] Cons.prems True
      show ?thesis by (auto simp: case_prod_unfold)
    next
      assume "x \<in> set es"
      with Cons True show ?thesis by (auto simp: case_prod_unfold inj_on_def)
    qed
  next
    case False
    with Cons.prems have "e \<in> set es" "inj_on uuid (set es)" by (auto simp: inj_on_def)
    with Cons.IH Cons.prems(3) show ?thesis by (auto simp: case_prod_unfold)
  qed
qed

lemma preservesD: "preserves g P \<Longrightarrow> P w \<Longrightarrow> g q w = Some w' \<Longrightarrow> P w'"
  by (auto simp: preserves_def)

lemma andThen_Inl: "andThen (evs, Inl err) f = (evs, Inl err)"
  by (simp add: andThen_def)

lemma andThen_Inr: "andThen (evs, Inr w) f = (evs @ fst (f w), snd (f w))"
  by (simp add: andThen_def case_prod_unfold)

lemma postMoveStep_unfold:
  "postMoveStep g tok pre e w =
     (case pre (uuid e) of
        None \<Rightarrow> ([Nearby tok (distance e) (disposition e) (collisionTypes e)], Inl TypeError)
      | Some preR \<Rightarrow>
          (case toDelete w e preR (nearbyActors w tok e) of
             Inl err \<Rightarrow> ([Nearby tok (distance e) (disposition e) (collisionTypes e)], Inl err)
           | Inr del \<Rightarrow>
               (case g (DeleteEffects del) w of
                  None \<Rightarrow> ([Nearby tok (distance e) (disposition e) (collisionTypes e),
                             Query (DeleteEffects del)], Inl QueryRejected)
                | Some w1 \<Rightarrow>
                    (if isFinalMovementComplete w1 tok
                     then ([Nearby tok (distance e) (disposition e) (collisionTypes e),
                            Query (DeleteEffects del),
                            Query (ApplyEffect (effectData e) (toAddTo w1 tok e (nearbyActors w tok e)))],
                           case g (ApplyEffect (effectData e) (toAddTo w1 tok e (nearbyActors w tok e))) w1 of
                             None \<Rightarrow> Inl QueryRejected | Some w2 \<Rightarrow> Inr w2)
                     else ([Nearby tok (distance e) (disposition e) (collisionTypes e),
                            Query (DeleteEffects del)], Inr w1)))))"
  by (simp add: postMoveStep_def Let_def andThen_Inl andThen_Inr dispatch_def
        split: option.splits sum.splits)

lemma postMoveStep_inv:
  assumes pres: "preserves g P" and w: "P w" and step: "postMoveStep g tok pre e w = (evs, r)"
  shows "(\<forall>w'. r = Inr w' \<longrightarrow> P w') \<and> (\<forall>ev\<in>set evs. passA_event P tok pre e ev)"
proof (cases "pre (uuid e)")
  case None
  with step show ?thesis by (auto simp: postMoveStep_unfold passA_event_def)
next
  case (Some preR)
  show ?thesis
  proof (cases "toDelete w e preR (nearbyActors w tok e)")
    case (Inl err)
    with Some step show ?thesis by (auto simp: postMoveStep_unfold passA_event_def)
  next
    case (Inr del)
    have del_ev: "passA_event P tok pre e (Query (DeleteEffects del))"
      using w Some Inr by (auto simp: passA_event_def)
    have near_ev: "passA_event P tok pre e (Nearby tok (distance e) (disposition e) (collisionTypes e))"
      by (simp add: passA_event_def)
    show ?thesis
    proof (cases "g (DeleteEffects del) w")
      case None
      with Some Inr step del_ev near_ev show ?thesis by (auto simp: postMoveStep_unfold)
    next
      case w1: (Some w1)
      from preservesD[OF pres w w1] have Pw1: "P w1" .
      show ?thesis
      proof (cases "isFinalMovementComplete w1 tok")
        case False
        with Some Inr w1 step del_ev near_ev Pw1 show ?thesis by (auto simp: postMoveStep_unfold)
      next
        case True
        have add_ev: "passA_event P tok pre e
            (Query (ApplyEffect (effectData e) (toAddTo w1 tok e (nearbyActors w tok e))))"
          using w Pw1 True unfolding passA_event_def by blast
        from Some Inr w1 True step
        have evs: "evs = [Nearby tok (distance e) (disposition e) (collisionTypes e),
                            Query (DeleteEffects del),
                            Query (ApplyEffect (effectData e) (toAddTo w1 tok e (nearbyActors w tok e)))]"
          and r: "r = (case g (ApplyEffect (effectData e) (toAddTo w1 tok e (nearbyActors w tok e))) w1 of
                             None \<Rightarrow> Inl QueryRejected | Some w2 \<Rightarrow> Inr w2)"
          by (auto simp: postMoveStep_unfold)
        from r pres Pw1 have "\<forall>w'. r = Inr w' \<longrightarrow> P w'"
          by (auto split: option.splits dest: preservesD)
        with evs del_ev near_ev add_ev show ?thesis by simp
      qed
    qed
  qed
qed

lemma postMoveLoop_inv:
  assumes pres: "preserves g P"
  shows "P w \<Longrightarrow> postMoveLoop g tok pre es w = (evs, r) \<Longrightarrow>
         (\<forall>w'. r = Inr w' \<longrightarrow> P w') \<and>
         (\<forall>ev\<in>set evs. \<exists>e\<in>set es. \<not> falsy (distance e) \<and> passA_event P tok pre e ev)"
proof (induction es arbitrary: w evs r)
  case Nil
  then show ?case by auto
next
  case (Cons e es)
  show ?case
  proof (cases "falsy (distance e)")
    case True
    with Cons.prems have "postMoveLoop g tok pre es w = (evs, r)" by simp
    from Cons.IH[OF Cons.prems(1) this] show ?thesis by auto
  next
    case False
    obtain evs1 r1 where step: "postMoveStep g tok pre e w = (evs1, r1)" by force
    from postMoveStep_inv[OF pres Cons.prems(1) step]
    have r1: "\<forall>w'. r1 = Inr w' \<longrightarrow> P w'" and ev1: "\<forall>ev\<in>set evs1. passA_event P tok pre e ev"
      by auto
    show ?thesis
    proof (cases r1)
      case (Inl err)
      with Cons.prems(2) False step have "evs = evs1" "r = Inl err" by auto
      with ev1 False show ?thesis by auto
    next
      case (Inr w1)
      obtain evs2 r2 where rest: "postMoveLoop g tok pre es w1 = (evs2, r2)" by force
      from r1 Inr have "P w1" by simp
      from Cons.IH[OF this rest]
      have r2: "\<forall>w'. r2 = Inr w' \<longrightarrow> P w'"
        and ev2: "\<forall>ev\<in>set evs2. \<exists>e\<in>set es. \<not> falsy (distance e) \<and> passA_event P tok pre e ev"
        by auto
      from Cons.prems(2) False step Inr rest have "evs = evs1 @ evs2" "r = r2" by auto
      with r2 ev1 ev2 False show ?thesis by auto
    qed
  qed
qed

lemma auraLoop_events:
  "ev \<in> set (fst (auraLoop w tok s es acc)) \<Longrightarrow> \<exists>c. ev = Distance tok s c"
proof (induction es arbitrary: acc)
  case Nil
  then show ?case by simp
next
  case (Cons e es)
  obtain toRemove toAdd where acc: "acc = (toRemove, toAdd)" by force
  from Cons.prems show ?case
    unfolding acc by (auto simp: case_prod_unfold dest: Cons.IH)
qed

lemma reducer_events:
  "ev \<in> set (fst (reducer w tok acc s)) \<Longrightarrow>
   \<exists>c. ev = Distance tok s c \<and> token_actor s \<noteq> token_actor tok"
  by (auto simp: reducer_def case_prod_unfold split: if_splits option.splits dest: auraLoop_events)

lemma sceneAuras_events:
  "ev \<in> set (fst (sceneAuras w tok ss acc)) \<Longrightarrow>
   \<exists>s c. ev = Distance tok s c \<and> token_actor s \<noteq> token_actor tok"
proof (induction ss arbitrary: acc)
  case Nil
  then show ?case by simp
next
  case (Cons s ss)
  obtain evs1 r1 where red: "reducer w tok acc s = (evs1, r1)" by force
  show ?case
  proof (cases r1)
    case (Inl err)
    with Cons.prems red have "ev \<in> set (fst (reducer w tok acc s))" by simp
    from reducer_events[OF this] show ?thesis by blast
  next
    case (Inr acc')
    with Cons.prems red
    have "ev \<in> set (fst (reducer w tok acc s)) \<or> ev \<in> set (fst (sceneAuras w tok ss acc'))"
      by (auto simp: case_prod_unfold)
    then show ?thesis
      using reducer_events Cons.IH by blast
  qed
qed

lemma passB_inv:
  assumes pres: "preserves g P" and w: "P w" and run: "passB g tok w = (evs, r)"
  shows "(\<forall>w'. r = Inr w' \<longrightarrow> P w') \<and> (\<forall>ev\<in>set evs. passB_event P tok ev)"
proof -
  obtain evs0 r0 where scan: "sceneAuras w tok (tokens w) ([], []) = (evs0, r0)" by force
  have scan_ev: "\<forall>ev\<in>set evs0. passB_event P tok ev"
    using sceneAuras_events[of _ w tok "tokens w" "([], [])"] scan
    by (auto simp: passB_event_def)
  show ?thesis
  proof (cases r0)
    case (Inl err)
    with scan run have "evs = evs0" "r = Inl err" by (auto simp: passB_def)
    with scan_ev show ?thesis by simp
  next
    case (Inr acc)
    obtain rem add where acc: "acc = (rem, add)" by force
    note scan' = scan[unfolded Inr acc]
    show ?thesis
    proof (cases "token_actor tok")
      case None
      with scan' run have "\<forall>w'. r = Inr w' \<longrightarrow> w' = w" "set evs = set evs0"
        by (auto simp: passB_def andThen_Inl andThen_Inr split: if_splits)
      with scan_ev w show ?thesis by auto
    next
      case (Some a)
      have del_ev: "rem \<noteq> [] \<Longrightarrow>
          passB_event P tok (Query (DeleteAuraEffects (actor_uuid a) (map uuid rem)))"
        using w scan' Some unfolding passB_event_def by blast
      have add_ev: "\<And>w1. P w1 \<Longrightarrow> isFinalMovementComplete w1 tok \<Longrightarrow> add \<noteq> [] \<Longrightarrow>
          passB_event P tok (Query (ApplyAuraEffects (actor_uuid a) (map uuid add)))"
        using w scan' Some unfolding passB_event_def by blast
      define r1 where "r1 = (if rem \<noteq> []
          then dispatch g (DeleteAuraEffects (actor_uuid a) (map uuid rem)) w else ([], Inr w))"
      have r1_ok: "(\<forall>w'. snd r1 = Inr w' \<longrightarrow> P w') \<and> (\<forall>ev\<in>set (fst r1). passB_event P tok ev)"
        using del_ev w pres
        by (auto simp: r1_def dispatch_def split: option.splits dest: preservesD)
      have run': "(evs, r) = andThen (evs0 @ fst r1, snd r1)
            (\<lambda>w1. if add \<noteq> [] \<and> isFinalMovementComplete w1 tok
                  then dispatch g (ApplyAuraEffects (actor_uuid a) (map uuid add)) w1
                  else ([], Inr w1))"
        using run[symmetric] scan' Some
        by (simp add: passB_def andThen_Inr r1_def split del: if_split cong: if_cong)
      show ?thesis
      proof (cases "snd r1")
        case (Inl err)
        with run' have "evs = evs0 @ fst r1" "r = Inl err" by (simp_all add: andThen_Inl)
        with scan_ev r1_ok show ?thesis by auto
      next
        case w1: (Inr w1)
        with r1_ok have Pw1: "P w1" by simp
        show ?thesis
        proof (cases "add \<noteq> [] \<and> isFinalMovementComplete w1 tok")
          case False
          with run' w1 have "evs = evs0 @ fst r1" "r = Inr w1" by (auto simp: andThen_Inr)
          with scan_ev r1_ok Pw1 show ?thesis by auto
        next
          case True
          with run' w1
          have "evs = evs0 @ fst r1 @ [Query (ApplyAuraEffects (actor_uuid a) (map uuid add))]"
            and "r = (case g (ApplyAuraEffects (actor_uuid a) (map uuid add)) w1 of
                        None \<Rightarrow> Inl QueryRejected | Some w2 \<Rightarrow> Inr w2)"
            by (auto simp: andThen_Inr dispatch_def)
          moreover have "passB_event P tok (Query (ApplyAuraEffects (actor_uuid a) (map uuid add)))"
            using add_ev[OF Pw1] True by simp
          ultimately show ?thesis
            using scan_ev r1_ok Pw1 pres
            by (auto split: option.splits dest: preservesD)
        qed
      qed
    qed
  qed
qed

lemma reconcile_inv:
  assumes pres: "preserves g P" and w: "P (settled w)"
    and run: "reconcile g settled tok a w = (evs, r)" and ev: "ev \<in> set evs"
  shows "ev = AwaitMovement
         \<or> (\<exists>e\<in>set (appliedEffects w a). etype e = ''auras.aura'' \<and> \<not> falsy (distance e) \<and>
               passA_event P tok
                 (snd (preMoveLoop w tok (filter (\<lambda>e. etype e = ''auras.aura'') (appliedEffects w a))
                         Map.empty)) e ev)
         \<or> passB_event P tok ev"
proof -
  define srcs where "srcs = filter (\<lambda>e. etype e = ''auras.aura'') (appliedEffects w a)"
  define pre where "pre = snd (preMoveLoop w tok srcs Map.empty)"
  define evs0 where "evs0 = fst (preMoveLoop w tok srcs Map.empty)"
  have pml: "preMoveLoop w tok srcs Map.empty = (evs0, pre)" by (simp add: evs0_def pre_def)
  have ev0: "\<forall>ev\<in>set evs0. \<exists>e\<in>set srcs. \<not> falsy (distance e) \<and> passA_event P tok pre e ev"
    using preMoveLoop_events[of _ w tok srcs Map.empty]
    by (fastforce simp: evs0_def passA_event_def)
  have srcsD: "\<And>e. e \<in> set srcs \<Longrightarrow> e \<in> set (appliedEffects w a) \<and> etype e = ''auras.aura''"
    by (simp add: srcs_def)
  show ?thesis
  proof (cases "token_object tok")
    case False
    with run pml have "evs = evs0" by (simp add: reconcile_def Let_def srcs_def[symmetric])
    with ev ev0 srcsD show ?thesis unfolding pre_def srcs_def by blast
  next
    case True
    obtain evs1 r1 where loop: "postMoveLoop g tok pre srcs (settled w) = (evs1, r1)" by force
    from postMoveLoop_inv[OF pres w loop]
    have r1: "\<forall>w'. r1 = Inr w' \<longrightarrow> P w'"
      and ev1: "\<forall>ev\<in>set evs1. \<exists>e\<in>set srcs. \<not> falsy (distance e) \<and> passA_event P tok pre e ev"
      by auto
    from run pml True loop
    have run': "(evs, r) = andThen (evs0 @ [AwaitMovement] @ evs1, r1) (passB g tok)"
      by (simp add: reconcile_def Let_def srcs_def[symmetric] andThen_Inr)
    have "ev \<in> set evs0 \<or> ev = AwaitMovement \<or> ev \<in> set evs1 \<or> passB_event P tok ev"
    proof (cases r1)
      case (Inl err)
      with run' ev show ?thesis by (auto simp: andThen_Inl)
    next
      case (Inr w1)
      obtain evs2 r2 where pb: "passB g tok w1 = (evs2, r2)" by force
      from r1 Inr have "P w1" by simp
      from passB_inv[OF pres this pb] have "\<forall>ev\<in>set evs2. passB_event P tok ev" by simp
      moreover from run' Inr pb have "evs = evs0 @ [AwaitMovement] @ evs1 @ evs2"
        by (simp add: andThen_Inr)
      ultimately show ?thesis using ev by auto
    qed
    with ev0 ev1 srcsD show ?thesis unfolding pre_def srcs_def by blast
  qed
qed

subsection \<open>Unfolding the scene and the handler\<close>

lemmas scene_defs = actorA_def actorB_def auraA_def auraB_def derivedB_def tokA_def tokB_def
  sceneEffects_def world0_def gmAck_def game0_def gameNoGM_def move0_def

lemmas more_defs = heldEffects_def worldTransit_def gameTransit_def auraZero_def worldZero_def
  derivedA_def worldSelf_def worldHeld_def worldEdge_def worldApart_def auraUnset_def
  worldUnset_def ownMove_def otherMove_def actorC_def tokC_def worldThree_def tokB2_def
  worldTwo_def

lemmas handler_defs = updateToken_def reconcile_def postMoveStep_def passB_def
     andThen_def dispatch_def nearbyActors_def new_Set_def toDelete_def toAddTo_def difference_def
     reducer_def auraEffects_def effectiveDisposition_def js_lt_def findDerived_def effectData_def

subsection \<open>The handler as a whole\<close>

lemma preserves_True: "preserves g (\<lambda>_. True)"
  by (simp add: preserves_def)

lemma updateToken_reconcile:
  assumes "user_id g = uid" "activeGM g = Some gm" "token_actor tok = Some a"
    and "\<not> falsy (upd_x upd) \<or> \<not> falsy (upd_y upd) \<or> \<not> falsy (upd_elevation upd)"
  shows "updateToken g seen w tok upd uid =
           \<lparr>seenWarning = seen,
            trace = fst (reconcile gm (movementAnimationPromise g) tok a w),
            outcome = snd (reconcile gm (movementAnimationPromise g) tok a w)\<rparr>"
  using assms by (auto simp: updateToken_def case_prod_unfold)

lemma updateToken_events:
  assumes ev: "ev \<in> set (trace (updateToken g seen w tok upd uid))"
    and pres: "\<And>gm. activeGM g = Some gm \<Longrightarrow> preserves gm P"
    and w: "P (movementAnimationPromise g w)"
  shows "ev = Warn ''AURAS.NoActiveGM'' \<or> ev = AwaitMovement
         \<or> (\<exists>a. token_actor tok = Some a \<and>
              (\<exists>e\<in>set (appliedEffects w a). etype e = ''auras.aura'' \<and> \<not> falsy (distance e) \<and>
                 passA_event P tok
                   (snd (preMoveLoop w tok (filter (\<lambda>e. etype e = ''auras.aura'') (appliedEffects w a))
                           Map.empty)) e ev))
         \<or> passB_event P tok ev"
proof (cases "user_id g = uid \<and> activeGM g \<noteq> None \<and> token_actor tok \<noteq> None
      \<and> (\<not> falsy (upd_x upd) \<or> \<not> falsy (upd_y upd) \<or> \<not> falsy (upd_elevation upd))")
  case False
  with ev show ?thesis
    by (auto simp: updateToken_def split: option.splits if_splits)
next
  case True
  then obtain gm a where gm: "activeGM g = Some gm" and a: "token_actor tok = Some a"
    and uid: "user_id g = uid"
    and mv: "\<not> falsy (upd_x upd) \<or> \<not> falsy (upd_y upd) \<or> \<not> falsy (upd_elevation upd)"
    by auto
  obtain evs r where run: "reconcile gm (movementAnimationPromise g) tok a w = (evs, r)" by force
  from ev updateToken_reconcile[OF uid gm a mv, of seen w] run have "ev \<in> set evs" by simp
  from reconcile_inv[OF pres[OF gm] w run this] a show ?thesis by auto
qed

lemma requests_append: "requests (xs @ ys) = requests xs @ requests ys"
  by (induction xs rule: requests.induct) auto

lemma in_requests: "q \<in> set (requests evs) \<longleftrightarrow> Query q \<in> set evs"
  by (induction evs rule: requests.induct) auto

subsection \<open>Sessions with no active GM\<close>

lemma length_session: "length (session seen invs) = length invs"
  by (induction invs arbitrary: seen) (auto simp: Let_def)

lemma updateToken_noGM:
  "activeGM g = None \<Longrightarrow>
   updateToken g seen w tok upd uid =
     (if user_id g = uid \<and> \<not> seen
      then \<lparr>seenWarning = True, trace = [Warn ''AURAS.NoActiveGM''], outcome = Inr w\<rparr>
      else \<lparr>seenWarning = seen, trace = [], outcome = Inr w\<rparr>)"
  by (simp add: updateToken_def)

lemma session_noGM:
  "\<forall>i\<in>set invs. activeGM (inv_game i) = None \<Longrightarrow> k < length invs \<Longrightarrow>
   trace (session seen invs ! k) =
     (if \<not> seen \<and> user_id (inv_game (invs ! k)) = inv_userId (invs ! k) \<and>
         (\<forall>j<k. user_id (inv_game (invs ! j)) \<noteq> inv_userId (invs ! j))
      then [Warn ''AURAS.NoActiveGM''] else [])"
proof (induction invs arbitrary: seen k)
  case Nil
  then show ?case by simp
next
  case (Cons i rest)
  from Cons.prems have noGM: "activeGM (inv_game i) = None"
    and rest: "\<forall>i\<in>set rest. activeGM (inv_game i) = None" by auto
  show ?case
  proof (cases k)
    case 0
    then show ?thesis by (simp add: Let_def updateToken_noGM[OF noGM])
  next
    case (Suc k')
    with Cons.prems have k': "k' < length rest" by simp
    show ?thesis
      unfolding Suc
      by (auto simp: Let_def updateToken_noGM[OF noGM] Cons.IH[OF rest k'] All_less_Suc2)
  qed
qed

subsection \<open>The scan of Pass B\<close>




lemma uuid_of_actor:
  "map_option actor_uuid x = Some (actor_uuid a) \<longleftrightarrow> x = Some a"
  "Some (actor_uuid a) = map_option actor_uuid x \<longleftrightarrow> x = Some a"
  by (cases x; auto simp: actor.expand)+

lemma in_toAddTo:
  "Some (actor_uuid a) \<in> set (toAddTo w tok e post) \<longleftrightarrow>
     Some a \<in> set post \<and> Some a \<noteq> token_actor tok \<and> findDerived w e a = None"
  by (auto simp: toAddTo_def image_iff uuid_of_actor)

lemma difference_same: "set s = set t \<Longrightarrow> difference s t = []"
  by (simp add: difference_def filter_empty_conv)

subsection \<open>The worlds the queries are sent in\<close>

lemma requests_preMoveLoop: "requests (fst (preMoveLoop w tok es pre)) = []"
  by (induction es arbitrary: pre) (auto simp: case_prod_unfold)

lemma replay_append:
  "replay g w (qs @ qs') = (case replay g w qs of None \<Rightarrow> None | Some w' \<Rightarrow> replay g w' qs')"
  by (induction qs arbitrary: w) (auto split: option.splits)

lemma asked_append:
  "asked g w (qs @ qs') =
     asked g w qs @ (case replay g w qs of None \<Rightarrow> [] | Some w' \<Rightarrow> asked g w' qs')"
  by (induction qs arbitrary: w) (auto split: option.splits)

lemma asked_query: "(q, wq) \<in> set (asked g w qs) \<Longrightarrow> q \<in> set qs"
  by (induction qs arbitrary: w) (auto split: option.splits)

lemma postMoveStep_asked:
  assumes step: "postMoveStep g tok pre e w = (evs, r)"
  shows "\<forall>w'. r = Inr w' \<longrightarrow> replay g w (requests evs) = Some w'"
    and "\<forall>q wq. (q, wq) \<in> set (asked g w (requests evs)) \<longrightarrow> passA_asked tok pre e q wq"
    and "\<forall>q\<in>set (requests evs). isPassA q"
    and "\<forall>w'. r = Inr w' \<longrightarrow>
           (\<exists>preR del. pre (uuid e) = Some preR
              \<and> toDelete w e preR (nearbyActors w tok e) = Inr del
              \<and> (DeleteEffects del, w) \<in> set (asked g w (requests evs)))"
proof -
  show "\<forall>w'. r = Inr w' \<longrightarrow> replay g w (requests evs) = Some w'"
    using step
    by (auto simp: postMoveStep_unfold split: option.splits sum.splits if_splits)
  show "\<forall>q\<in>set (requests evs). isPassA q"
    using step
    by (auto simp: postMoveStep_unfold split: option.splits sum.splits if_splits)
  show "\<forall>w'. r = Inr w' \<longrightarrow>
           (\<exists>preR del. pre (uuid e) = Some preR
              \<and> toDelete w e preR (nearbyActors w tok e) = Inr del
              \<and> (DeleteEffects del, w) \<in> set (asked g w (requests evs)))"
    using step
    by (auto simp: postMoveStep_unfold split: option.splits sum.splits if_splits)
  show "\<forall>q wq. (q, wq) \<in> set (asked g w (requests evs)) \<longrightarrow> passA_asked tok pre e q wq"
  proof (intro allI impI)
    fix q wq
    assume "(q, wq) \<in> set (asked g w (requests evs))"
    with step show "passA_asked tok pre e q wq"
      unfolding passA_asked_def
      by (auto simp: postMoveStep_unfold split: option.splits sum.splits if_splits)
  qed
qed

lemma postMoveLoop_asked:
  "postMoveLoop g tok pre es w = (evs, r) \<Longrightarrow>
     (\<forall>w'. r = Inr w' \<longrightarrow> replay g w (requests evs) = Some w') \<and>
     (\<forall>q wq. (q, wq) \<in> set (asked g w (requests evs)) \<longrightarrow>
        (\<exists>e\<in>set es. \<not> falsy (distance e) \<and> passA_asked tok pre e q wq)) \<and>
     (\<forall>q\<in>set (requests evs). isPassA q) \<and>
     (\<forall>w'. r = Inr w' \<longrightarrow>
        (\<forall>e\<in>set es. \<not> falsy (distance e) \<longrightarrow>
           (\<exists>wq preR del. pre (uuid e) = Some preR
              \<and> toDelete wq e preR (nearbyActors wq tok e) = Inr del
              \<and> (DeleteEffects del, wq) \<in> set (asked g w (requests evs)))))"
proof (induction es arbitrary: w evs r)
  case Nil
  then show ?case by auto
next
  case (Cons e es)
  show ?case
  proof (cases "falsy (distance e)")
    case True
    with Cons.prems have "postMoveLoop g tok pre es w = (evs, r)" by simp
    from Cons.IH[OF this] True show ?thesis by auto
  next
    case False
    obtain evs1 r1 where step: "postMoveStep g tok pre e w = (evs1, r1)" by force
    note s = postMoveStep_asked[OF step]
    show ?thesis
    proof (cases r1)
      case (Inl err)
      with Cons.prems False step have "evs = evs1" "r = Inl err" by auto
      with s(2,3) False show ?thesis by auto
    next
      case (Inr w1)
      obtain evs2 r2 where rest: "postMoveLoop g tok pre es w1 = (evs2, r2)" by force
      note ih = Cons.IH[OF rest]
      from Cons.prems False step Inr rest have evs: "evs = evs1 @ evs2" and r: "r = r2" by auto
      from s(1) Inr have rp: "replay g w (requests evs1) = Some w1" by simp
      have ask: "asked g w (requests evs) = asked g w (requests evs1) @ asked g w1 (requests evs2)"
        by (simp add: evs requests_append asked_append rp)
      have t: "\<forall>w'. r = Inr w' \<longrightarrow> replay g w (requests evs) = Some w'"
        using ih by (simp add: evs r requests_append replay_append rp)
      have a: "\<forall>q wq. (q, wq) \<in> set (asked g w (requests evs)) \<longrightarrow>
           (\<exists>e\<in>set (e # es). \<not> falsy (distance e) \<and> passA_asked tok pre e q wq)"
        using s(2) ih False unfolding ask by auto
      have f: "\<forall>q\<in>set (requests evs). isPassA q"
        using s(3) ih by (auto simp: evs requests_append)
      have ex: "\<forall>w'. r = Inr w' \<longrightarrow>
        (\<forall>x\<in>set (e # es). \<not> falsy (distance x) \<longrightarrow>
           (\<exists>wq preR del. pre (uuid x) = Some preR
              \<and> toDelete wq x preR (nearbyActors wq tok x) = Inr del
              \<and> (DeleteEffects del, wq) \<in> set (asked g w (requests evs))))"
      proof (intro allI impI ballI)
        fix w' x
        assume r': "r = Inr w'" and x: "x \<in> set (e # es)" and nf: "\<not> falsy (distance x)"
        show "\<exists>wq preR del. pre (uuid x) = Some preR
              \<and> toDelete wq x preR (nearbyActors wq tok x) = Inr del
              \<and> (DeleteEffects del, wq) \<in> set (asked g w (requests evs))"
        proof (cases "x = e")
          case True
          from s(4) Inr obtain preR del where "pre (uuid e) = Some preR"
            "toDelete w e preR (nearbyActors w tok e) = Inr del"
            "(DeleteEffects del, w) \<in> set (asked g w (requests evs1))" by blast
          then show ?thesis unfolding ask True by auto
        next
          case False
          with x have "x \<in> set es" by simp
          with ih r' r nf obtain wq preR del where "pre (uuid x) = Some preR"
            "toDelete wq x preR (nearbyActors wq tok x) = Inr del"
            "(DeleteEffects del, wq) \<in> set (asked g w1 (requests evs2))" by blast
          then show ?thesis unfolding ask by auto
        qed
      qed
      from t a f ex show ?thesis by blast
    qed
  qed
qed

lemma requests_sceneAuras: "requests (fst (sceneAuras w tok ss acc)) = []"
proof -
  have "\<forall>q. q \<notin> set (requests (fst (sceneAuras w tok ss acc)))"
    by (auto simp: in_requests dest: sceneAuras_events)
  then show ?thesis by (cases "requests (fst (sceneAuras w tok ss acc))") auto
qed

lemma passB_cases:
  assumes scan: "sceneAuras w tok (tokens w) ([], []) = (evs0, Inr (rem, add))"
    and a: "token_actor tok = Some a"
  shows "passB g tok w =
     (if rem \<noteq> []
      then (case g (DeleteAuraEffects (actor_uuid a) (map uuid rem)) w of
              None \<Rightarrow> (evs0 @ [Query (DeleteAuraEffects (actor_uuid a) (map uuid rem))], Inl QueryRejected)
            | Some w1 \<Rightarrow>
                (if add \<noteq> [] \<and> isFinalMovementComplete w1 tok
                 then (evs0 @ [Query (DeleteAuraEffects (actor_uuid a) (map uuid rem)),
                               Query (ApplyAuraEffects (actor_uuid a) (map uuid add))],
                       case g (ApplyAuraEffects (actor_uuid a) (map uuid add)) w1 of
                         None \<Rightarrow> Inl QueryRejected | Some w2 \<Rightarrow> Inr w2)
                 else (evs0 @ [Query (DeleteAuraEffects (actor_uuid a) (map uuid rem))], Inr w1)))
      else (if add \<noteq> [] \<and> isFinalMovementComplete w tok
            then (evs0 @ [Query (ApplyAuraEffects (actor_uuid a) (map uuid add))],
                  case g (ApplyAuraEffects (actor_uuid a) (map uuid add)) w of
                    None \<Rightarrow> Inl QueryRejected | Some w2 \<Rightarrow> Inr w2)
            else (evs0, Inr w)))"
  using scan a
  by (simp add: passB_def andThen_Inr andThen_Inl dispatch_def split: option.splits)

lemma passB_asked:
  assumes run: "passB g tok w = (evs, r)"
  shows "(\<forall>w'. r = Inr w' \<longrightarrow> replay g w (requests evs) = Some w') \<and>
         (\<forall>q\<in>set (requests evs). \<not> isPassA q)"
proof -
  obtain evs0 r0 where scan: "sceneAuras w tok (tokens w) ([], []) = (evs0, r0)" by force
  have req0: "requests evs0 = []"
    using requests_sceneAuras[of w tok "tokens w" "([], [])"] scan by simp
  show ?thesis
  proof (cases r0)
    case (Inl err)
    with scan run have "evs = evs0" "r = Inl err" by (auto simp: passB_def)
    with req0 show ?thesis by simp
  next
    case (Inr acc)
    obtain rem add where acc: "acc = (rem, add)" by force
    note scan' = scan[unfolded Inr acc]
    show ?thesis
    proof (cases "token_actor tok")
      case None
      with scan' run have "\<forall>w'. r = Inr w' \<longrightarrow> w' = w" "requests evs = requests evs0"
        by (auto simp: passB_def andThen_Inl andThen_Inr split: if_splits)
      with req0 show ?thesis by auto
    next
      case (Some a)
      from run req0 show ?thesis
        unfolding passB_cases[OF scan' Some]
        by (auto simp: requests_append split: if_splits option.splits)
    qed
  qed
qed



lemma reconcile_requests:
  assumes run: "reconcile g settled tok a w = (evs, r)"
  shows "(\<not> token_object tok \<longrightarrow> requests evs = [] \<and> r = Inl TypeError) \<and>
         (token_object tok \<longrightarrow>
            (\<exists>evs1 r1.
               postMoveLoop g tok
                 (snd (preMoveLoop w tok (filter (\<lambda>e. etype e = ''auras.aura'') (appliedEffects w a))
                         Map.empty))
                 (filter (\<lambda>e. etype e = ''auras.aura'') (appliedEffects w a)) (settled w) = (evs1, r1) \<and>
               (case r1 of
                  Inl err \<Rightarrow> requests evs = requests evs1 \<and> r = Inl err
                | Inr w1 \<Rightarrow> requests evs = requests evs1 @ requests (fst (passB g tok w1))
                            \<and> r = snd (passB g tok w1))))"
proof -
  define srcs where "srcs = filter (\<lambda>e. etype e = ''auras.aura'') (appliedEffects w a)"
  define pre where "pre = snd (preMoveLoop w tok srcs Map.empty)"
  define evs0 where "evs0 = fst (preMoveLoop w tok srcs Map.empty)"
  have pml: "preMoveLoop w tok srcs Map.empty = (evs0, pre)" by (simp add: evs0_def pre_def)
  have req0: "requests evs0 = []" by (simp add: evs0_def requests_preMoveLoop)
  show ?thesis
  proof (cases "token_object tok")
    case False
    with run pml have "evs = evs0" "r = Inl TypeError"
      by (simp_all add: reconcile_def Let_def srcs_def[symmetric])
    with req0 False show ?thesis by simp
  next
    case True
    obtain evs1 r1 where loop: "postMoveLoop g tok pre srcs (settled w) = (evs1, r1)" by force
    from run pml True loop
    have run': "(evs, r) = andThen (evs0 @ [AwaitMovement] @ evs1, r1) (passB g tok)"
      by (simp add: reconcile_def Let_def srcs_def[symmetric] andThen_Inr)
    have "case r1 of
            Inl err \<Rightarrow> requests evs = requests evs1 \<and> r = Inl err
          | Inr w1 \<Rightarrow> requests evs = requests evs1 @ requests (fst (passB g tok w1))
                      \<and> r = snd (passB g tok w1)"
    proof (cases r1)
      case (Inl err)
      with run' show ?thesis by (simp add: andThen_Inl requests_append req0)
    next
      case (Inr w1)
      with run' show ?thesis by (simp add: andThen_Inr requests_append req0)
    qed
    with loop True show ?thesis unfolding pre_def srcs_def by blast
  qed
qed

lemma updateToken_requests_cases:
  "requests (trace (updateToken g seen w tok upd uid)) = [] \<or>
   (\<exists>gm a. activeGM g = Some gm \<and> token_actor tok = Some a \<and>
      updateToken g seen w tok upd uid =
        \<lparr>seenWarning = seen,
         trace = fst (reconcile gm (movementAnimationPromise g) tok a w),
         outcome = snd (reconcile gm (movementAnimationPromise g) tok a w)\<rparr>)"
  by (auto simp: updateToken_def case_prod_unfold split: option.splits)

lemma updateToken_asked:
  assumes gm: "activeGM g = Some gm"
    and q: "(q, wq) \<in> set (asked gm (movementAnimationPromise g w)
                (requests (trace (updateToken g seen w tok upd uid))))"
    and pa: "isPassA q"
  shows "\<exists>a e. token_actor tok = Some a \<and> e \<in> set (appliedEffects w a) \<and>
           etype e = ''auras.aura'' \<and> \<not> falsy (distance e) \<and>
           passA_asked tok
             (snd (preMoveLoop w tok (filter (\<lambda>e. etype e = ''auras.aura'') (appliedEffects w a))
                     Map.empty)) e q wq"
proof -
  from q have ne: "requests (trace (updateToken g seen w tok upd uid)) \<noteq> []" by auto
  with updateToken_requests_cases[of g seen w tok upd uid] gm
  obtain a where a: "token_actor tok = Some a"
    and ut: "updateToken g seen w tok upd uid =
        \<lparr>seenWarning = seen,
         trace = fst (reconcile gm (movementAnimationPromise g) tok a w),
         outcome = snd (reconcile gm (movementAnimationPromise g) tok a w)\<rparr>"
    by auto
  define srcs where "srcs = filter (\<lambda>e. etype e = ''auras.aura'') (appliedEffects w a)"
  define pre where "pre = snd (preMoveLoop w tok srcs Map.empty)"
  obtain evs r where run: "reconcile gm (movementAnimationPromise g) tok a w = (evs, r)" by force
  from ut run have tr: "trace (updateToken g seen w tok upd uid) = evs" by simp
  from ne tr reconcile_requests[OF run]
  obtain evs1 r1 where loop: "postMoveLoop gm tok pre srcs (movementAnimationPromise g w) = (evs1, r1)"
    and str: "case r1 of
                  Inl err \<Rightarrow> requests evs = requests evs1 \<and> r = Inl err
                | Inr w1 \<Rightarrow> requests evs = requests evs1 @ requests (fst (passB gm tok w1))
                            \<and> r = snd (passB gm tok w1)"
    unfolding pre_def srcs_def by (cases "token_object tok") auto
  note l = postMoveLoop_asked[OF loop]
  have "(q, wq) \<in> set (asked gm (movementAnimationPromise g w) (requests evs1))"
  proof (cases r1)
    case (Inl err)
    with str q tr show ?thesis by simp
  next
    case (Inr w1)
    with l have rp: "replay gm (movementAnimationPromise g w) (requests evs1) = Some w1" by simp
    from Inr str have "requests evs = requests evs1 @ requests (fst (passB gm tok w1))" by simp
    with q tr rp
    have "(q, wq) \<in> set (asked gm (movementAnimationPromise g w) (requests evs1)) \<or>
          (q, wq) \<in> set (asked gm w1 (requests (fst (passB gm tok w1))))"
      by (simp add: asked_append)
    moreover have "(q, wq) \<notin> set (asked gm w1 (requests (fst (passB gm tok w1))))"
    proof
      assume "(q, wq) \<in> set (asked gm w1 (requests (fst (passB gm tok w1))))"
      then have "q \<in> set (requests (fst (passB gm tok w1)))" by (rule asked_query)
      moreover from passB_asked[of gm tok w1 "fst (passB gm tok w1)" "snd (passB gm tok w1)"]
      have "\<forall>q\<in>set (requests (fst (passB gm tok w1))). \<not> isPassA q" by simp
      ultimately show False using pa by blast
    qed
    ultimately show ?thesis by blast
  qed
  with l obtain e where "e \<in> set srcs" "\<not> falsy (distance e)" "passA_asked tok pre e q wq"
    by blast
  with a show ?thesis unfolding pre_def srcs_def by auto
qed





text \<open>
  Replaying the queries of an invocation that returned, from the world the movement
  settled in, ends in the world the invocation returned in.
\<close>

lemma updateToken_replay:
  assumes uid: "user_id g = uid" and gm: "activeGM g = Some gm" and a: "token_actor tok = Some a"
    and mv: "\<not> falsy (upd_x upd) \<or> \<not> falsy (upd_y upd) \<or> \<not> falsy (upd_elevation upd)"
    and ret: "outcome (updateToken g seen w tok upd uid) = Inr w'"
  shows "replay gm (movementAnimationPromise g w)
           (requests (trace (updateToken g seen w tok upd uid))) = Some w'"
proof -
  obtain evs r where run: "reconcile gm (movementAnimationPromise g) tok a w = (evs, r)" by force
  from updateToken_reconcile[OF uid gm a mv, of seen w] run ret
  have tr: "trace (updateToken g seen w tok upd uid) = evs" and r: "r = Inr w'" by simp_all
  from reconcile_requests[OF run] r obtain evs1 r1 where
    loop: "postMoveLoop gm tok
             (snd (preMoveLoop w tok (filter (\<lambda>e. etype e = ''auras.aura'') (appliedEffects w a))
                     Map.empty))
             (filter (\<lambda>e. etype e = ''auras.aura'') (appliedEffects w a))
             (movementAnimationPromise g w) = (evs1, r1)"
    and str: "case r1 of
                  Inl err \<Rightarrow> requests evs = requests evs1 \<and> r = Inl err
                | Inr w1 \<Rightarrow> requests evs = requests evs1 @ requests (fst (passB gm tok w1))
                            \<and> r = snd (passB gm tok w1)"
    by (cases "token_object tok") auto
  from str r obtain w1 where r1: "r1 = Inr w1" by (cases r1) auto
  with str r have req: "requests evs = requests evs1 @ requests (fst (passB gm tok w1))"
    and pb: "snd (passB gm tok w1) = Inr w'" by simp_all
  from postMoveLoop_asked[OF loop] r1
  have "replay gm (movementAnimationPromise g w) (requests evs1) = Some w1" by simp
  moreover from pb have "passB gm tok w1 = (fst (passB gm tok w1), Inr w')"
    by (simp add: prod_eq_iff)
  from passB_asked[OF this]
  have "replay gm w1 (requests (fst (passB gm tok w1))) = Some w'" by simp
  ultimately show ?thesis by (simp add: tr req replay_append)
qed


subsection \<open>What Pass B does not read, and what its scan marks\<close>

lemma auraLoop_effects: "auraLoop (w\<lparr>effects := f\<rparr>) tok s es acc = auraLoop w tok s es acc"
proof (induction es arbitrary: acc)
  case Nil
  then show ?case by simp
next
  case (Cons e es)
  obtain toRemove toAdd where acc: "acc = (toRemove, toAdd)" by force
  show ?case unfolding acc by (simp add: Cons.IH)
qed

lemma auraEffects_effects: "auraEffects (w\<lparr>effects := f\<rparr>) tok s a = auraEffects w tok s a"
  by (simp add: auraEffects_def)

lemma reducer_effects: "reducer (w\<lparr>effects := f\<rparr>) tok acc s = reducer w tok acc s"
  by (simp add: reducer_def auraEffects_effects auraLoop_effects
        cong: option.case_cong if_cong)

lemma sceneAuras_effects: "sceneAuras (w\<lparr>effects := f\<rparr>) tok ss acc = sceneAuras w tok ss acc"
  by (induction ss arbitrary: acc) (simp_all add: reducer_effects)


subsection \<open>The scenes, run\<close>





lemma three_requests:
  "requests (trace (updateToken game0 False worldThree tokA move0 ''user1'')) =
     [DeleteEffects [], ApplyEffect (effectData auraA) [Some ''Actor.C''],
      ApplyAuraEffects ''Actor.A'' [''Actor.B.ActiveEffect.1'']]"
  by (simp add: scene_defs more_defs handler_defs)



section \<open>The claims\<close>

subsection \<open>C1: two invocations with nothing moved in between\<close>

text \<open>
  C1, as stated, fails. In \<open>world0\<close> nothing moves while the handler runs (the
  animation leaves the world as it is) and the first invocation returns in \<open>world0\<close>
  again; the second invocation, started there, sends three queries: a \<open>deleteEffects\<close>
  and an \<open>applyEffect\<close> with empty lists for A's own aura, and an
  \<open>applyAuraEffects\<close> for B's aura, which actor A already has.
\<close>

theorem idempotence_counterexample:
  "movementAnimationPromise game0 world0 = world0 \<and>
   outcome (updateToken game0 False world0 tokA move0 ''user1'') = Inr world0 \<and>
   requests (trace (updateToken game0
       (seenWarning (updateToken game0 False world0 tokA move0 ''user1'')) world0 tokA move0 ''user1'')) =
     [DeleteEffects [], ApplyEffect (effectData auraA) [],
      ApplyAuraEffects ''Actor.A'' [''Actor.B.ActiveEffect.1'']]"
  by (simp add: scene_defs handler_defs)

text \<open>
  C1, amended. Let the effects of the moving actor have distinct uuids, and let the
  token's proximity sets be the same when the update is accepted, when the animation has
  settled and after every answer of the GM. Then every \<open>deleteEffects\<close> query of the
  invocation carries the empty list: Pass A asks for no removal. The witness is the scene
  with three tokens, where the proximity set of A's aura is the same three actors before
  and after.
\<close>

theorem stable_proximity_no_removals:
  assumes actor: "token_actor tok = Some a"
    and uniq: "inj_on uuid (set (appliedEffects w a))"
    and still: "sameProximity tok w (movementAnimationPromise g w)"
    and kept: "\<And>gm. activeGM g = Some gm \<Longrightarrow> preserves gm (sameProximity tok w)"
    and req: "Query (DeleteEffects l) \<in> set (trace (updateToken g seen w tok upd uid))"
  shows "l = []"
proof -
  define srcs where "srcs = filter (\<lambda>e. etype e = ''auras.aura'') (appliedEffects w a)"
  from updateToken_events[OF req kept still] actor
  obtain e w0 preR where e: "e \<in> set (appliedEffects w a)" "etype e = ''auras.aura''"
      "\<not> falsy (distance e)"
    and w0: "sameProximity tok w w0"
    and pre: "snd (preMoveLoop w tok srcs Map.empty) (uuid e) = Some preR"
    and del: "toDelete w0 e preR (nearbyActors w0 tok e) = Inr l"
    unfolding srcs_def by (auto simp: passA_event_def passB_event_def)
  from e have "e \<in> set srcs" by (simp add: srcs_def)
  moreover from uniq have "inj_on uuid (set srcs)"
    by (rule inj_on_subset) (auto simp: srcs_def)
  ultimately have "snd (preMoveLoop w tok srcs Map.empty) (uuid e) = Some (nearbyActors w tok e)"
    using e(3) by (simp add: preMoveLoop_lookup)
  with pre have preR: "preR = nearbyActors w tok e" by simp
  from w0 have "set preR = set (nearbyActors w0 tok e)"
    by (simp add: preR nearbyActors_def set_new_Set sameProximity_def del: set_map)
  then have "difference preR (nearbyActors w0 tok e) = []" by (rule difference_same)
  with del show ?thesis by (simp add: toDelete_def)
qed

theorem stable_proximity_no_removals_witness:
  "token_actor tokA = Some actorA \<and>
   inj_on uuid (set (appliedEffects worldThree actorA)) \<and>
   sameProximity tokA worldThree (movementAnimationPromise game0 worldThree) \<and>
   preserves gmAck (sameProximity tokA worldThree) \<and>
   nearbyActors worldThree tokA auraA = [Some actorA, Some actorB, Some actorC] \<and>
   Query (DeleteEffects []) \<in> set (trace (updateToken game0 False worldThree tokA move0 ''user1''))"
proof -
  have actor: "token_actor tokA = Some actorA" by (simp add: tokA_def)
  have uniq: "inj_on uuid (set (appliedEffects worldThree actorA))"
    by (simp add: scene_defs more_defs)
  have still: "sameProximity tokA worldThree (movementAnimationPromise game0 worldThree)"
    by (simp add: sameProximity_def game0_def)
  have kept: "preserves gmAck (sameProximity tokA worldThree)"
    by (simp add: preserves_def gmAck_def)
  have kept': "\<And>gm. activeGM game0 = Some gm \<Longrightarrow> preserves gm (sameProximity tokA worldThree)"
    using kept by (simp add: game0_def)
  have near: "nearbyActors worldThree tokA auraA = [Some actorA, Some actorB, Some actorC]"
    by (simp add: scene_defs more_defs nearbyActors_def new_Set_def)
  have req: "Query (DeleteEffects [])
      \<in> set (trace (updateToken game0 False worldThree tokA move0 ''user1''))"
    using three_requests by (simp add: in_requests[symmetric])
  from stable_proximity_no_removals[OF actor uniq still kept' req] actor uniq still kept near req
  show ?thesis by simp
qed

subsection \<open>C2: no second derived effect\<close>

text \<open>
  C2, as stated, fails for Pass B. In \<open>world0\<close> actor A already holds the effect
  derived from B's aura (its origin is the uuid of that aura), and the invocation sends
  \<open>applyAuraEffects\<close> for that very aura: the batch is made of every aura in range,
  and what the moving actor holds is never looked at.
\<close>

theorem duplicate_counterexample:
  "find (\<lambda>x. origin x = Some (uuid auraB)) (effects world0 actorA) = Some derivedB \<and>
   Query (ApplyAuraEffects (actor_uuid actorA) [uuid auraB])
     \<in> set (trace (updateToken game0 False world0 tokA move0 ''user1''))"
  by (simp add: scene_defs handler_defs)

text \<open>
  C2, amended. Pass A: an \<open>applyEffect\<close> query never names an actor that holds, in
  the world the query is sent in, an effect whose origin is the origin of the query's
  effect data (the uuid of the source effect). Pass B: the scan never reads
  \<open>actor.effects\<close>, so what it marks is the same whatever any actor holds; it has no
  such exclusion.
\<close>

theorem duplicate_prevention_passA:
  assumes gm: "activeGM g = Some gm"
    and req: "(ApplyEffect d l, w1) \<in> set (asked gm (movementAnimationPromise g w)
                (requests (trace (updateToken g seen w tok upd uid))))"
    and org: "origin d = Some u"
    and held: "holdsDerived u b w1"
  shows "Some (actor_uuid b) \<notin> set l \<and>
         sceneAuras (w2\<lparr>effects := f\<rparr>) tok (tokens w2) ([], []) = sceneAuras w2 tok (tokens w2) ([], [])"
proof
  from updateToken_asked[OF gm req]
  obtain e w0 where d: "d = effectData e" and l: "l = toAddTo w1 tok e (nearbyActors w0 tok e)"
    by (auto simp: passA_asked_def)
  from d org have "uuid e = u" by (simp add: effectData_def)
  with held have "findDerived w1 e b \<noteq> None" by (simp add: holdsDerived_def findDerived_def)
  with l show "Some (actor_uuid b) \<notin> set l" by (simp add: in_toAddTo)
next
  show "sceneAuras (w2\<lparr>effects := f\<rparr>) tok (tokens w2) ([], []) = sceneAuras w2 tok (tokens w2) ([], [])"
    by (rule sceneAuras_effects)
qed

theorem duplicate_prevention_passA_witness:
  "activeGM game0 = Some gmAck \<and>
   (ApplyEffect (effectData auraA) [Some ''Actor.C''], worldThree)
     \<in> set (asked gmAck (movementAnimationPromise game0 worldThree)
              (requests (trace (updateToken game0 False worldThree tokA move0 ''user1'')))) \<and>
   origin (effectData auraA) = Some (uuid auraA) \<and>
   holdsDerived (uuid auraA) actorB worldThree \<and>
   Some actorB \<in> set (nearbyActors worldThree tokA auraA) \<and>
   Some (actor_uuid actorB) \<notin> set [Some ''Actor.C'']"
proof -
  have gm: "activeGM game0 = Some gmAck" by (simp add: game0_def)
  have req: "(ApplyEffect (effectData auraA) [Some ''Actor.C''], worldThree)
     \<in> set (asked gmAck (movementAnimationPromise game0 worldThree)
              (requests (trace (updateToken game0 False worldThree tokA move0 ''user1''))))"
    unfolding three_requests by (simp add: gmAck_def game0_def)
  have org: "origin (effectData auraA) = Some (uuid auraA)" by (simp add: effectData_def)
  have held: "holdsDerived (uuid auraA) actorB worldThree"
    by (simp add: holdsDerived_def scene_defs more_defs)
  have near: "Some actorB \<in> set (nearbyActors worldThree tokA auraA)"
    by (simp add: scene_defs more_defs nearbyActors_def new_Set_def)
  from duplicate_prevention_passA[OF gm req org held] gm req org held near
  show ?thesis by simp
qed

subsection \<open>C3: removals at every segment, additions at the last\<close>



subsection \<open>C4: no active GM\<close>

text \<open>
  C4, as stated, fails. No GM is active; the first invocation is for a move that another
  user made, the second for a move of the local user. The first invocation warns zero
  times and the second, a subsequent one, warns once.
\<close>

theorem no_authority_counterexample:
  "activeGM (inv_game otherMove) = None \<and> activeGM (inv_game ownMove) = None \<and>
   map (\<lambda>r. warnings (trace r)) (session False [otherMove, ownMove]) = [0, 1]"
  by (simp add: otherMove_def ownMove_def gameNoGM_def updateToken_def warnings_def Let_def)

text \<open>
  C4, amended. In a sequence of invocations with no active GM, started with
  \<open>seenWarning\<close> unset, the first invocation whose initiating user is the local one
  warns exactly once and every other invocation warns zero times; no invocation calls a
  geometry helper, waits for the animation or sends a query.
\<close>

theorem no_authority_latch:
  assumes "\<forall>i\<in>set invs. activeGM (inv_game i) = None" and "k < length invs"
  shows "warnings (trace (session False invs ! k)) =
           (if user_id (inv_game (invs ! k)) = inv_userId (invs ! k) \<and>
               (\<forall>j<k. user_id (inv_game (invs ! j)) \<noteq> inv_userId (invs ! j))
            then 1 else 0) \<and>
         quiet (trace (session False invs ! k)) \<and>
         requests (trace (session False invs ! k)) = []"
  using session_noGM[OF assms, of False] by (simp add: warnings_def quiet_def)

theorem no_authority_latch_witness:
  "activeGM (inv_game otherMove) = None \<and> activeGM (inv_game ownMove) = None \<and>
   (2::nat) < length [otherMove, ownMove, ownMove] \<and>
   warnings (trace (session False [otherMove, ownMove, ownMove] ! 1)) = 1 \<and>
   warnings (trace (session False [otherMove, ownMove, ownMove] ! 2)) = 0 \<and>
   requests (trace (session False [otherMove, ownMove, ownMove] ! 2)) = []"
proof -
  have noGM: "\<forall>i\<in>set [otherMove, ownMove, ownMove]. activeGM (inv_game i) = None"
    by (simp add: otherMove_def ownMove_def gameNoGM_def)
  have ids: "user_id (inv_game otherMove) \<noteq> inv_userId otherMove"
    "user_id (inv_game ownMove) = inv_userId ownMove"
    by (simp_all add: otherMove_def ownMove_def gameNoGM_def)
  have one: "(1::nat) < length [otherMove, ownMove, ownMove]"
    and two: "(2::nat) < length [otherMove, ownMove, ownMove]" by simp_all
  have "warnings (trace (session False [otherMove, ownMove, ownMove] ! 1)) = 1"
    using no_authority_latch[OF noGM one] ids by simp
  moreover have "warnings (trace (session False [otherMove, ownMove, ownMove] ! 2)) = 0 \<and>
    requests (trace (session False [otherMove, ownMove, ownMove] ! 2)) = []"
    using no_authority_latch[OF noGM two] ids by (auto simp: All_less_Suc2 numeral_2_eq_2)
  ultimately show ?thesis using noGM by simp
qed

subsection \<open>C5: an aura with no radius\<close>

text \<open>
  C5 holds in Pass A, which leaves a source effect with a falsy radius out of both loops:
  every call of the nearby-token helper has a radius that is not falsy.
\<close>

lemma passA_skips_falsy_radius:
  assumes "Nearby t r d c \<in> set (trace (updateToken g seen w tok upd uid))"
  shows "\<not> falsy r"
  using updateToken_events[OF assms, of "\<lambda>_. True"]
  by (auto simp: preserves_True passA_event_def passB_event_def)

text \<open>
  C5 does not hold in Pass B, which has no such test. B's aura has radius \<open>0\<close>. With
  the tokens 3 apart the distance helper is called for it and its removal is requested;
  with the tokens on the same spot it is requested for actor A. An aura whose radius is
  not set is requested for actor A at any distance, \<open>undefined < d\<close> being false.
\<close>

theorem zero_radius_passB:
  "falsy (distance auraZero) \<and> falsy (distance auraUnset) \<and>
   trace (updateToken game0 False worldApart tokA move0 ''user1'') =
     [AwaitMovement, Distance tokA tokB [''move''],
      Query (DeleteAuraEffects ''Actor.A'' [''Actor.B.ActiveEffect.3''])] \<and>
   trace (updateToken game0 False worldZero tokA move0 ''user1'') =
     [AwaitMovement, Distance tokA tokB [''move''],
      Query (ApplyAuraEffects ''Actor.A'' [''Actor.B.ActiveEffect.3''])] \<and>
   trace (updateToken game0 False worldUnset tokA move0 ''user1'') =
     [AwaitMovement, Distance tokA tokB [''move''],
      Query (ApplyAuraEffects ''Actor.A'' [''Actor.B.ActiveEffect.3''])]"
  by (simp add: scene_defs more_defs handler_defs)

subsection \<open>C6: when the handler reconciles\<close>

text \<open>
  C6, as stated, fails: the initiating user moves token A to \<open>x = 100\<close>, and the
  handler does not reconcile, because no GM is active. It warns and returns.
\<close>

theorem trigger_counterexample:
  "user_id gameNoGM = ''user1'' \<and> upd_x move0 = Num 100 \<and>
   trace (updateToken gameNoGM False world0 tokA move0 ''user1'') = [Warn ''AURAS.NoActiveGM'']"
  by (simp add: scene_defs updateToken_def)

text \<open>
  C6, amended. The handler reconciles only if the initiating user is the local one, a GM is
  active, the token has an actor and the update carries \<open>x\<close>, \<open>y\<close> or
  \<open>elevation\<close>: in every other invocation it returns without a call of a geometry
  helper, a wait or a query. It does reconcile (its events and its outcome are those of
  lines 31 to 93) whenever the first three hold and one of the three new values is a
  number other than zero.
\<close>

theorem trigger_condition:
  "(\<not> (user_id g = uid \<and> activeGM g \<noteq> None \<and> token_actor tok \<noteq> None \<and>
        (upd_x upd \<noteq> Undefined \<or> upd_y upd \<noteq> Undefined \<or> upd_elevation upd \<noteq> Undefined)) \<longrightarrow>
      quiet (trace (updateToken g seen w tok upd uid)) \<and>
      outcome (updateToken g seen w tok upd uid) = Inr w) \<and>
   (user_id g = uid \<and> activeGM g = Some gm \<and> token_actor tok = Some a \<and>
      (\<not> falsy (upd_x upd) \<or> \<not> falsy (upd_y upd) \<or> \<not> falsy (upd_elevation upd)) \<longrightarrow>
      updateToken g seen w tok upd uid =
        \<lparr>seenWarning = seen,
         trace = fst (reconcile gm (movementAnimationPromise g) tok a w),
         outcome = snd (reconcile gm (movementAnimationPromise g) tok a w)\<rparr>)"
proof (intro conjI impI)
  assume "\<not> (user_id g = uid \<and> activeGM g \<noteq> None \<and> token_actor tok \<noteq> None \<and>
        (upd_x upd \<noteq> Undefined \<or> upd_y upd \<noteq> Undefined \<or> upd_elevation upd \<noteq> Undefined))"
  then show "quiet (trace (updateToken g seen w tok upd uid))"
    and "outcome (updateToken g seen w tok upd uid) = Inr w"
    by (auto simp: updateToken_def quiet_def split: option.splits)
next
  assume "user_id g = uid \<and> activeGM g = Some gm \<and> token_actor tok = Some a \<and>
      (\<not> falsy (upd_x upd) \<or> \<not> falsy (upd_y upd) \<or> \<not> falsy (upd_elevation upd))"
  then show "updateToken g seen w tok upd uid =
        \<lparr>seenWarning = seen,
         trace = fst (reconcile gm (movementAnimationPromise g) tok a w),
         outcome = snd (reconcile gm (movementAnimationPromise g) tok a w)\<rparr>"
    using updateToken_reconcile by blast
qed

theorem trigger_condition_witness:
  "\<not> (user_id game0 = ''user2'' \<and> activeGM game0 \<noteq> None \<and> token_actor tokA \<noteq> None \<and>
        (upd_x move0 \<noteq> Undefined \<or> upd_y move0 \<noteq> Undefined \<or> upd_elevation move0 \<noteq> Undefined)) \<and>
   quiet (trace (updateToken game0 False world0 tokA move0 ''user2'')) \<and>
   outcome (updateToken game0 False world0 tokA move0 ''user2'') = Inr world0 \<and>
   user_id game0 = ''user1'' \<and> activeGM game0 = Some gmAck \<and> token_actor tokA = Some actorA \<and>
   \<not> falsy (upd_x move0) \<and>
   updateToken game0 False world0 tokA move0 ''user1'' =
     \<lparr>seenWarning = False,
      trace = fst (reconcile gmAck (movementAnimationPromise game0) tokA actorA world0),
      outcome = snd (reconcile gmAck (movementAnimationPromise game0) tokA actorA world0)\<rparr>"
proof -
  have other: "\<not> (user_id game0 = ''user2'' \<and> activeGM game0 \<noteq> None \<and> token_actor tokA \<noteq> None \<and>
        (upd_x move0 \<noteq> Undefined \<or> upd_y move0 \<noteq> Undefined \<or> upd_elevation move0 \<noteq> Undefined))"
    by (simp add: game0_def)
  have mine: "user_id game0 = ''user1'' \<and> activeGM game0 = Some gmAck \<and>
      token_actor tokA = Some actorA \<and> \<not> falsy (upd_x move0)"
    by (simp add: game0_def tokA_def move0_def)
  from other mine
    trigger_condition[of game0 "''user2''" tokA move0 False world0 gmAck actorA]
    trigger_condition[of game0 "''user1''" tokA move0 False world0 gmAck actorA]
  show ?thesis by blast
qed

text \<open>
  The test on line 30 is on the truth of the new values, not on their presence: an update
  that moves the token to \<open>x = 0\<close> and lands it at elevation \<open>0\<close> is taken for one
  that does not move it.
\<close>

lemma move_to_zero_ignored:
  "trace (updateToken game0 False world0 tokA
            \<lparr>upd_x = Num 0, upd_y = Undefined, upd_elevation = Num 0\<rparr> ''user1'') = []"
  by (simp add: scene_defs updateToken_def)

subsection \<open>C7: the edge of the radius\<close>




subsection \<open>C8: dispositions\<close>

text \<open>
  C8. The effective disposition is the product of the two tokens' dispositions; an
  applied effect of the source actor survives the filter exactly when it is an aura whose
  disposition is \<open>0\<close> or that product; the product, and so the filter, is the same
  whichever of the two tokens is the moving one.
\<close>

theorem disposition_matching:
  "(e \<in> set (auraEffects w tok s a) \<longleftrightarrow>
      e \<in> set (appliedEffects w a) \<and> etype e = ''auras.aura'' \<and>
      (disposition e = 0 \<or> disposition e = token_disposition tok * token_disposition s)) \<and>
   effectiveDisposition tok s = token_disposition tok * token_disposition s \<and>
   effectiveDisposition tok s = effectiveDisposition s tok \<and>
   auraEffects w tok s a = auraEffects w s tok a"
  by (auto simp: auraEffects_def effectiveDisposition_def mult.commute)

theorem disposition_matching_witness:
  "effectiveDisposition (tokA\<lparr>token_disposition := - 1\<rparr>) tokB = - 1 \<and>
   effectiveDisposition tokB (tokA\<lparr>token_disposition := - 1\<rparr>) = - 1 \<and>
   auraB \<in> set (auraEffects world0 (tokA\<lparr>token_disposition := - 1\<rparr>) tokB actorB)"
  using disposition_matching[of auraB world0 "tokA\<lparr>token_disposition := - 1\<rparr>" tokB actorB]
  by (simp add: scene_defs auraEffects_def effectiveDisposition_def)

subsection \<open>C9: the moving actor and its own aura\<close>

text \<open>
  C9. No \<open>applyEffect\<close> query of an invocation names the moving token's actor; the
  distance helper is never called for a source token of that actor; and the callback of
  Pass B leaves its two lists as they are for such a token, in any world, so also when
  the token is at distance \<open>0\<close> of itself.
\<close>

theorem self_exclusion:
  assumes "token_actor tok = Some a"
  shows "(\<forall>d l. Query (ApplyEffect d l) \<in> set (trace (updateToken g seen w tok upd uid)) \<longrightarrow>
            Some (actor_uuid a) \<notin> set l) \<and>
         (\<forall>t s c. Distance t s c \<in> set (trace (updateToken g seen w tok upd uid)) \<longrightarrow>
            token_actor s \<noteq> Some a) \<and>
         (\<forall>(s::token) acc w'. token_actor s = Some a \<longrightarrow> reducer w' tok acc s = ([], Inr acc))"
proof (intro conjI allI impI)
  fix d l
  assume "Query (ApplyEffect d l) \<in> set (trace (updateToken g seen w tok upd uid))"
  from updateToken_events[OF this, of "\<lambda>_. True"]
  obtain e w0 w1 where "l = toAddTo w1 tok e (nearbyActors w0 tok e)"
    by (auto simp: preserves_True passA_event_def passB_event_def)
  then show "Some (actor_uuid a) \<notin> set l"
    using assms by (simp add: in_toAddTo)
next
  fix t s c
  assume "Distance t s c \<in> set (trace (updateToken g seen w tok upd uid))"
  from updateToken_events[OF this, of "\<lambda>_. True"]
  show "token_actor s \<noteq> Some a"
    using assms by (auto simp: preserves_True passA_event_def passB_event_def)
next
  fix s :: token and acc w'
  assume "token_actor s = Some a"
  with assms show "reducer w' tok acc s = ([], Inr acc)" by (simp add: reducer_def)
qed

theorem self_exclusion_witness:
  "token_actor tokA = Some actorA \<and>
   Query (ApplyEffect (effectData auraA) [Some ''Actor.B''])
     \<in> set (trace (updateToken game0 False worldSelf tokA move0 ''user1'')) \<and>
   Some (actor_uuid actorA) \<notin> set [Some ''Actor.B'']"
proof -
  have h: "token_actor tokA = Some actorA" by (simp add: tokA_def)
  have ev: "Query (ApplyEffect (effectData auraA) [Some ''Actor.B''])
     \<in> set (trace (updateToken game0 False worldSelf tokA move0 ''user1''))"
    by (simp add: scene_defs more_defs handler_defs)
  from self_exclusion[OF h, of game0 False worldSelf move0 "''user1''"] ev
  have "Some (actor_uuid actorA) \<notin> set [Some ''Actor.B'']" by blast
  with h ev show ?thesis by simp
qed

subsection \<open>C10: a moved token with no actor\<close>

text \<open>
  C10. When the moved token has no actor, the handler returns (it does not throw) without
  calling a geometry helper, waiting for the animation or sending a query: the only
  thing it may do is warn, which happens when there is no active GM either. The missing
  actor is never dereferenced.
\<close>

theorem null_actor_guard:
  "token_actor tok = None \<Longrightarrow>
   quiet (trace (updateToken g seen w tok upd uid)) \<and>
   outcome (updateToken g seen w tok upd uid) = Inr w"
  by (simp add: updateToken_def quiet_def split: option.splits)

theorem null_actor_guard_witness:
  "token_actor (tokA\<lparr>token_actor := None\<rparr>) = None \<and>
   quiet (trace (updateToken game0 False world0 (tokA\<lparr>token_actor := None\<rparr>) move0 ''user1'')) \<and>
   outcome (updateToken game0 False world0 (tokA\<lparr>token_actor := None\<rparr>) move0 ''user1'') = Inr world0"
  using null_actor_guard[of "tokA\<lparr>token_actor := None\<rparr>" game0 False world0 move0 "''user1''"]
  by simp

text \<open>
  The guard is on the moved token only. For another token of the scene that has no
  actor, line 68 reads \<open>appliedEffects\<close> of \<open>null\<close> and the handler throws.
\<close>

lemma source_token_without_actor:
  "token_actor s = None \<Longrightarrow> token_actor tok = Some a \<Longrightarrow>
   reducer w tok acc s = ([], Inl TypeError)"
  by (simp add: reducer_def)

end
